theory Spec2Isabelle
  imports
    Main
    "HOL-Library.AList"
    "HOL-Library.Char_ord"
    "HOL-Library.List_Lexorder"
    "HOL-Library.Option_ord"
    "HOL-Library.Product_Lexorder"
    "HOL-Library.Sublist"
    "HOL-Library.Multiset"
begin

text \<open>
  A shallow embedding of the analysis pipeline of the SQL query optimizer:
  \<^verbatim>\<open>core/parser.py\<close>, \<^verbatim>\<open>core/analyser.py\<close>, \<^verbatim>\<open>core/index_advisor.py\<close>,
  \<^verbatim>\<open>core/optimizer.py\<close> and the endpoint \<^verbatim>\<open>analyze_query\<close> of \<^verbatim>\<open>api/main.py\<close>.
  The code works on the token tree of the sqlparse library, which is not part of the
  repository: the tree, with the values of the library's accessors at each node, is
  the input of the model, and \<^verbatim>\<open>sqlparse.parse\<close> is a parameter. Every loop of the code
  is a recursive function over the token list it iterates, every uncaught exception
  is a result \<open>Inl e\<close>, and the one cache of the parser is a field of its record.
\<close>

section \<open>Python values used by the analysis pipeline\<close>

text \<open>
  The exceptions the modelled code can raise without catching them:
  \<^verbatim>\<open>sqlparse.parse(sql)[0]\<close> on an empty parse result (IndexError), an ordering
  comparison or a \<^verbatim>\<open>str.join\<close> that meets \<^verbatim>\<open>None\<close> (TypeError), and a name accessor
  called on a plain leaf token (AttributeError).
\<close>

datatype py_error = IndexError | TypeError | AttributeError

text \<open>
  The name accessors of sqlparse return \<^verbatim>\<open>Optional[str]\<close>; that is \<open>string option\<close>.
  \<open>truthy\<close> is Python's truth value of such a value and \<open>py_or\<close> is \<^verbatim>\<open>a or b\<close>.
\<close>

definition truthy :: "string option \<Rightarrow> bool" where
  "truthy x = (case x of None \<Rightarrow> False | Some s \<Rightarrow> s \<noteq> [])"

definition py_or :: "string option \<Rightarrow> string option \<Rightarrow> string option" where
  "py_or a b = (if truthy a then a else b)"

text \<open>
  A \<^verbatim>\<open>dict\<close> is an association list in insertion order: \<^verbatim>\<open>d[k] = v\<close> is
  \<open>AList.update k v d\<close> (an existing key keeps its place, a new key goes last) and
  \<^verbatim>\<open>d.get(k)\<close> is \<open>map_of d k\<close>.
\<close>

type_synonym ('k, 'v) dict = "('k \<times> 'v) list"

text \<open>\<^verbatim>\<open>sep.join(xs)\<close> on strings.\<close>

fun py_join :: "string \<Rightarrow> string list \<Rightarrow> string" where
  "py_join sep [] = []"
| "py_join sep [x] = x"
| "py_join sep (x # y # ys) = x @ sep @ py_join sep (y # ys)"

text \<open>\<^verbatim>\<open>sep.join(xs)\<close> on a list that may hold \<^verbatim>\<open>None\<close>: a TypeError then.\<close>

definition py_join_opt :: "string \<Rightarrow> string option list \<Rightarrow> py_error + string" where
  "py_join_opt sep xs = (if None \<in> set xs then Inl TypeError else Inr (py_join sep (map the xs)))"

text \<open>
  \<^verbatim>\<open>sorted(xs)\<close> on a list of \<^verbatim>\<open>Optional[str]\<close>. Sorting two or more elements compares each
  of them with another one, and \<^verbatim>\<open>None < x\<close> raises TypeError whatever \<open>x\<close> is.
  Strings compare by code point, lexicographically.
\<close>

definition py_sorted :: "string option list \<Rightarrow> py_error + string option list" where
  "py_sorted xs = (if 1 < length xs \<and> None \<in> set xs then Inl TypeError else Inr (sort xs))"

text \<open>
  \<^verbatim>\<open>sorted(xs)\<close> on a list of distinct \<^verbatim>\<open>(alias, column)\<close> tuples, the alias a string and the
  column \<^verbatim>\<open>Optional[str]\<close>. Tuples compare the columns only when the aliases are equal, so
  the comparison raises exactly when one alias stands with \<^verbatim>\<open>None\<close> and with a string.
\<close>

type_synonym column_ref = "string \<times> string option"

definition none_clash :: "column_ref list \<Rightarrow> bool" where
  "none_clash xs =
     list_ex (\<lambda>(a, c). c = None \<and> list_ex (\<lambda>(a', c'). a' = a \<and> c' \<noteq> None) xs) xs"

definition py_sorted_refs :: "column_ref list \<Rightarrow> py_error + column_ref list" where
  "py_sorted_refs xs = (if none_clash xs then Inl TypeError else Inr (sort xs))"

text \<open>
  \<^verbatim>\<open>list(s)\<close> of a \<^verbatim>\<open>set\<close> built by the adds \<open>xs\<close>: each element once, in an order that
  depends on the hashes (for strings, on the process's hash seed). The order is the
  parameter \<open>h\<close>; \<open>set_order h\<close> says that \<open>h\<close> only permutes.
\<close>

definition set_order :: "('a list \<Rightarrow> 'a list) \<Rightarrow> bool" where
  "set_order h = (\<forall>xs. mset (h xs) = mset xs)"

definition list_of_set :: "('a list \<Rightarrow> 'a list) \<Rightarrow> 'a list \<Rightarrow> 'a list" where
  "list_of_set h xs = h (remdups xs)"

text \<open>\<^verbatim>\<open>s.replace(old, new, 1)\<close>: the leftmost occurrence of \<open>old\<close> is replaced.\<close>

fun replace_first :: "string \<Rightarrow> string \<Rightarrow> string \<Rightarrow> string" where
  "replace_first [] old new = (if old = [] then new else [])"
| "replace_first (c # s) old new =
     (if prefix old (c # s) then new @ drop (length old) (c # s)
      else c # replace_first s old new)"

section \<open>The sqlparse token tree\<close>

text \<open>
  The tree is what \<^verbatim>\<open>sqlparse.parse\<close> returns; the library is not part of the
  repository, so the tree and the values of the library's accessors are inputs.
  A leaf carries its token type, its text and its normalised text; a group carries
  its class, the results of its name accessors, its normalised text and its children.
  \<open>Keyword_other\<close> stands for the subtypes of Keyword other than DML, \<open>Whitespace\<close>
  includes its Newline subtype.
\<close>

datatype ttype = Keyword | DML | Keyword_other | Whitespace | Punctuation | Other_ttype

datatype group_class =
  Identifier | IdentifierList | Where | Comparison | Function | Parenthesis | Other_group

record name_info =
  real_name :: "string option"
  alias_name :: "string option"
  parent_name :: "string option"

datatype token =
  Token ttype string string
| TokenList group_class name_info string "token list"

fun is_keyword :: "token \<Rightarrow> bool" where
  "is_keyword (Token t v n) = (t = Keyword \<or> t = DML \<or> t = Keyword_other)"
| "is_keyword (TokenList c i n ts) = False"

fun is_whitespace :: "token \<Rightarrow> bool" where
  "is_whitespace (Token t v n) = (t = Whitespace)"
| "is_whitespace (TokenList c i n ts) = False"

fun normalized :: "token \<Rightarrow> string" where
  "normalized (Token t v n) = n"
| "normalized (TokenList c i n ts) = n"

fun isinstance :: "token \<Rightarrow> group_class \<Rightarrow> bool" where
  "isinstance (Token t v n) k = False"
| "isinstance (TokenList c i n ts) k = (c = k)"

fun tokens_of :: "token \<Rightarrow> token list" where
  "tokens_of (Token t v n) = []"
| "tokens_of (TokenList c i n ts) = ts"

text \<open>
  \<^verbatim>\<open>token.match(ttype, value)\<close> for an upper-case \<open>value\<close>: the token type is exactly
  \<open>ttype\<close>, and the normalised text (of a keyword) or the text (otherwise) is \<open>value\<close>.
\<close>

fun match_tok :: "token \<Rightarrow> ttype \<Rightarrow> string \<Rightarrow> bool" where
  "match_tok (Token t v n) tt s = (t = tt \<and> (if is_keyword (Token t v n) then n = s else v = s))"
| "match_tok (TokenList c i n ts) tt s = False"

text \<open>\<^verbatim>\<open>str(token)\<close>: the texts of the leaves, concatenated.\<close>

fun tok_str :: "token \<Rightarrow> string" where
  "tok_str (Token t v n) = v"
| "tok_str (TokenList c i n ts) = concat (map tok_str ts)"

text \<open>
  \<^verbatim>\<open>TokenList.token_next(idx)\<close>: the first token after index \<open>idx\<close> that is not
  whitespace, with its index, or \<^verbatim>\<open>(None, None)\<close>.
\<close>

definition token_next :: "token list \<Rightarrow> nat \<Rightarrow> (nat \<times> token) option" where
  "token_next ts idx =
     (case filter (\<lambda>(j, t). \<not> is_whitespace t) (drop (Suc idx) (enumerate 0 ts)) of
        [] \<Rightarrow> None
      | x # _ \<Rightarrow> Some x)"

text \<open>
  \<^verbatim>\<open>IdentifierList.get_identifiers()\<close>: the children that are neither whitespace nor
  a comma.
\<close>

definition get_identifiers :: "token \<Rightarrow> token list" where
  "get_identifiers tok =
     filter (\<lambda>t. \<not> (is_whitespace t \<or> match_tok t Punctuation '','')) (tokens_of tok)"

text \<open>\<^verbatim>\<open>TokenList.get_name()\<close> is \<^verbatim>\<open>self.get_alias() or self.get_real_name()\<close>.\<close>

definition get_name :: "name_info \<Rightarrow> string option" where
  "get_name i = py_or (alias_name i) (real_name i)"

text \<open>
  A parsed statement: its top-level tokens and the value of \<^verbatim>\<open>get_type()\<close>.
\<close>

record parsed_statement =
  tokens :: "token list"
  get_type :: string

section \<open>core/parser.py\<close>

type_synonym alias_table = "(string option, string option) dict"

record sql_parser =
  raw_sql :: string
  parsed :: parsed_statement
  tables_and_aliases :: "alias_table option"

text \<open>
  \<^verbatim>\<open>SQLParser.__init__\<close>: \<^verbatim>\<open>sqlparse.parse(sql)[0]\<close>, an IndexError when the library finds
  no statement.
\<close>

definition SQLParser :: "(string \<Rightarrow> parsed_statement list) \<Rightarrow> string \<Rightarrow> py_error + sql_parser" where
  "SQLParser sqlparse_parse sql =
     (case sqlparse_parse sql of
        [] \<Rightarrow> Inl IndexError
      | st # _ \<Rightarrow> Inr \<lparr>raw_sql = sql, parsed = st, tables_and_aliases = None\<rparr>)"

text \<open>
  \<^verbatim>\<open>tables[identifier.get_alias() or identifier.get_real_name()] = identifier.get_real_name()\<close>.
  A leaf token has no name accessors.
\<close>

definition add_table :: "alias_table \<Rightarrow> token \<Rightarrow> py_error + alias_table" where
  "add_table tables tok =
     (case tok of
        Token t v n \<Rightarrow> Inl AttributeError
      | TokenList c i n ts \<Rightarrow>
          Inr (AList.update (py_or (alias_name i) (real_name i)) (real_name i) tables))"

fun add_tables :: "alias_table \<Rightarrow> token list \<Rightarrow> py_error + alias_table" where
  "add_tables tables [] = Inr tables"
| "add_tables tables (tok # rest) =
     (case add_table tables tok of
        Inl e \<Rightarrow> Inl e
      | Inr tables' \<Rightarrow> add_tables tables' rest)"

text \<open>The body of both scans while the flag is set (parser.py 42-50, index_advisor.py 28-32).\<close>

definition collect_tables :: "alias_table \<Rightarrow> token \<Rightarrow> py_error + alias_table" where
  "collect_tables tables tok =
     (if isinstance tok Identifier then add_table tables tok
      else if isinstance tok IdentifierList then add_tables tables (get_identifiers tok)
      else Inr tables)"

text \<open>The loop of \<^verbatim>\<open>SQLParser._get_tables_and_aliases\<close> (parser.py 40-56).\<close>

fun parser_scan :: "token list \<Rightarrow> alias_table \<Rightarrow> bool \<Rightarrow> py_error + alias_table" where
  "parser_scan [] tables from_or_join_seen = Inr tables"
| "parser_scan (tok # rest) tables from_or_join_seen =
     (case (if from_or_join_seen then collect_tables tables tok else Inr tables) of
        Inl e \<Rightarrow> Inl e
      | Inr tables' \<Rightarrow>
          (let seen1 =
                 (if from_or_join_seen \<and> \<not> (is_whitespace tok \<or> normalized tok = '','')
                  then False else from_or_join_seen);
               seen2 =
                 (if is_keyword tok \<and>
                     normalized tok \<in>
                       set [''FROM'', ''JOIN'', ''LEFT JOIN'', ''RIGHT JOIN'', ''INNER JOIN'']
                  then True else seen1)
           in parser_scan rest tables' seen2))"

text \<open>
  \<^verbatim>\<open>SQLParser._get_tables_and_aliases\<close> with its cache: the parser is returned with the
  cache filled.
\<close>

definition get_tables_and_aliases :: "sql_parser \<Rightarrow> (py_error + alias_table) \<times> sql_parser" where
  "get_tables_and_aliases p =
     (case tables_and_aliases p of
        Some t \<Rightarrow> (Inr t, p)
      | None \<Rightarrow>
          (case parser_scan (tokens (parsed p)) [] False of
             Inl e \<Rightarrow> (Inl e, p)
           | Inr t \<Rightarrow> (Inr t, p\<lparr>tables_and_aliases := Some t\<rparr>)))"

text \<open>\<^verbatim>\<open>SQLParser.extract_tables\<close>: \<^verbatim>\<open>sorted(list(set(tables_with_aliases.values())))\<close>.\<close>

definition extract_tables ::
  "(string option list \<Rightarrow> string option list) \<Rightarrow> sql_parser \<Rightarrow>
     (py_error + string option list) \<times> sql_parser" where
  "extract_tables h p =
     (case get_tables_and_aliases p of
        (Inl e, p') \<Rightarrow> (Inl e, p')
      | (Inr t, p') \<Rightarrow> (py_sorted (list_of_set h (map snd t)), p'))"

text \<open>\<^verbatim>\<open>SQLParser.extract_where_clause\<close>: the text of the first top-level Where group.\<close>

definition extract_where_clause :: "sql_parser \<Rightarrow> string option" where
  "extract_where_clause p =
     (case find (\<lambda>t. isinstance t Where) (tokens (parsed p)) of
        None \<Rightarrow> None
      | Some where_token \<Rightarrow> Some (tok_str where_token))"

definition get_query_type :: "sql_parser \<Rightarrow> string" where
  "get_query_type p = get_type (parsed p)"

section \<open>core/analyser.py\<close>

text \<open>
  \<^verbatim>\<open>QueryAnalyzer._recursive_find_identifiers\<close>: the \<^verbatim>\<open>(alias, column)\<close> pairs added to the
  set, in the order of the adds. Of a Function only the Parenthesis children are
  descended into; an Identifier adds \<^verbatim>\<open>(get_parent_name() or 'unknown', get_name())\<close> and is
  descended into like every other group; a leaf adds nothing.
\<close>

fun recursive_find_identifiers :: "token \<Rightarrow> column_ref list" where
  "recursive_find_identifiers (Token t v n) = []"
| "recursive_find_identifiers (TokenList c i n ts) =
     (if c = Function
      then concat (map recursive_find_identifiers (filter (\<lambda>s. isinstance s Parenthesis) ts))
      else (if c = Identifier
            then [(the (py_or (parent_name i) (Some ''unknown'')), get_name i)]
            else [])
           @ concat (map recursive_find_identifiers ts))"

text \<open>The call on \<^verbatim>\<open>token_next(...)[1]\<close>, which may be \<^verbatim>\<open>None\<close>: nothing is added then.\<close>

definition find_identifiers_next :: "(nat \<times> token) option \<Rightarrow> column_ref list" where
  "find_identifiers_next nt =
     (case nt of None \<Rightarrow> [] | Some (j, tok) \<Rightarrow> recursive_find_identifiers tok)"

text \<open>
  The four sets of \<^verbatim>\<open>analyze_column_usage\<close> while the loop runs (each the list of
  its adds), and the loop over the top-level tokens (analyser.py 39-57). The loop's
  token is the one at index \<open>idx\<close> of \<open>all_tokens\<close>, which is what
  \<^verbatim>\<open>token_index(token)\<close> returns.
\<close>

record usage_sets =
  where_filters_set :: "column_ref list"
  join_keys_set :: "column_ref list"
  order_by_set :: "column_ref list"
  group_by_set :: "column_ref list"

fun usage_loop :: "token list \<Rightarrow> nat \<Rightarrow> token list \<Rightarrow> usage_sets \<Rightarrow> bool \<Rightarrow> usage_sets" where
  "usage_loop all_tokens idx [] usage is_after_on = usage"
| "usage_loop all_tokens idx (tok # rest) usage is_after_on =
     (if is_keyword tok \<and> normalized tok = ''ON''
      then usage_loop all_tokens (Suc idx) rest usage True
      else
        (let join_hit = (is_after_on \<and> isinstance tok Comparison);
             usage1 =
               (if join_hit
                then usage\<lparr>join_keys_set := join_keys_set usage @ recursive_find_identifiers tok\<rparr>
                else usage);
             usage2 =
               (if isinstance tok Where
                then usage1\<lparr>where_filters_set :=
                              where_filters_set usage1 @ recursive_find_identifiers tok\<rparr>
                else usage1);
             usage3 =
               (if is_keyword tok
                then
                  (if sublist ''ORDER BY'' (normalized tok)
                   then usage2\<lparr>order_by_set :=
                                 order_by_set usage2
                                 @ find_identifiers_next (token_next all_tokens idx)\<rparr>
                   else if sublist ''GROUP BY'' (normalized tok)
                   then usage2\<lparr>group_by_set :=
                                 group_by_set usage2
                                 @ find_identifiers_next (token_next all_tokens idx)\<rparr>
                   else usage2)
                else usage2)
         in usage_loop all_tokens (Suc idx) rest usage3 (if join_hit then False else is_after_on)))"

text \<open>
  The usage map of the report: each role with its sorted list of pairs. A key that a
  report lacks reads as the empty list (\<^verbatim>\<open>column_usage.get(key, [])\<close>).
\<close>

record usage_map =
  where_filters :: "column_ref list"
  join_keys :: "column_ref list"
  order_by :: "column_ref list"
  group_by :: "column_ref list"

text \<open>
  \<^verbatim>\<open>QueryAnalyzer.analyze_column_usage\<close>; the last line is
  \<^verbatim>\<open>{key: sorted(list(cols)) for key, cols in usage.items()}\<close>.
\<close>

definition analyze_column_usage ::
  "(column_ref list \<Rightarrow> column_ref list) \<Rightarrow> parsed_statement \<Rightarrow> py_error + usage_map" where
  "analyze_column_usage h st =
     (let usage = usage_loop (tokens st) 0 (tokens st)
                    \<lparr>where_filters_set = [], join_keys_set = [],
                     order_by_set = [], group_by_set = []\<rparr> False
      in case py_sorted_refs (list_of_set h (where_filters_set usage)) of
           Inl e \<Rightarrow> Inl e
         | Inr w \<Rightarrow>
        (case py_sorted_refs (list_of_set h (join_keys_set usage)) of
           Inl e \<Rightarrow> Inl e
         | Inr j \<Rightarrow>
        (case py_sorted_refs (list_of_set h (order_by_set usage)) of
           Inl e \<Rightarrow> Inl e
         | Inr ob \<Rightarrow>
        (case py_sorted_refs (list_of_set h (group_by_set usage)) of
           Inl e \<Rightarrow> Inl e
         | Inr g \<Rightarrow>
             Inr \<lparr>where_filters = w, join_keys = j, order_by = ob, group_by = g\<rparr>))))"

record finding =
  finding_type :: string
  message :: string

text \<open>
  \<^verbatim>\<open>QueryAnalyzer.detect_anti_patterns\<close>. \<open>re_search\<close> stands for
  \<^verbatim>\<open>re.search(r'\b\w+\s*\(\s*[\w\.]+\s*\)', s)\<close> finding a match.
\<close>

definition detect_anti_patterns :: "(string \<Rightarrow> bool) \<Rightarrow> sql_parser \<Rightarrow> finding list" where
  "detect_anti_patterns re_search p =
     (let select_star =
            (if get_query_type p = ''SELECT''
             then (if list_ex (\<lambda>t. normalized t = ''*'') (tokens (parsed p))
                   then [\<lparr>finding_type = ''SELECT_STAR'',
                          message = ''Avoid using 'SELECT *'.''\<rparr>]
                   else [])
             else []);
          query_type = get_query_type p;
          missing_where =
            (if query_type \<in> set [''UPDATE'', ''DELETE'']
                \<and> \<not> truthy (extract_where_clause p)
             then [\<lparr>finding_type = ''MISSING_WHERE_CLAUSE'',
                    message = ''The '' @ query_type @ '' statement lacks a WHERE clause.''\<rparr>]
             else []);
          where_clause_str = extract_where_clause p;
          function_on_column =
            (if truthy where_clause_str \<and> re_search (the where_clause_str)
             then [\<lparr>finding_type = ''FUNCTION_ON_COLUMN_IN_WHERE'',
                    message = ''Found a function call on a column in the WHERE clause.''\<rparr>]
             else [])
      in select_star @ missing_where @ function_on_column)"

text \<open>
  The report of \<^verbatim>\<open>run_analysis\<close>, a \<^verbatim>\<open>dict\<close>. The keys \<^verbatim>\<open>column_usage\<close> and \<^verbatim>\<open>raw_sql\<close> are
  read with \<^verbatim>\<open>.get\<close> by the index advisor, so each may be absent (\<open>None\<close>);
  \<^verbatim>\<open>run_analysis\<close> itself sets no \<^verbatim>\<open>raw_sql\<close>.
\<close>

record analysis_report =
  query_type :: string
  tables :: "string option list"
  anti_patterns :: "finding list"
  column_usage :: "usage_map option"
  join_count :: int
  report_raw_sql :: "string option"

definition run_analysis ::
  "(string option list \<Rightarrow> string option list) \<Rightarrow> (column_ref list \<Rightarrow> column_ref list) \<Rightarrow>
   (string \<Rightarrow> bool) \<Rightarrow> sql_parser \<Rightarrow> (py_error + analysis_report) \<times> sql_parser" where
  "run_analysis h_names h_refs re_search p =
     (case extract_tables h_names p of
        (Inl e, p') \<Rightarrow> (Inl e, p')
      | (Inr tbls, p') \<Rightarrow>
          (case analyze_column_usage h_refs (parsed p') of
             Inl e \<Rightarrow> (Inl e, p')
           | Inr usage \<Rightarrow>
               (Inr \<lparr>query_type = get_query_type p',
                     tables = tbls,
                     anti_patterns = detect_anti_patterns re_search p',
                     column_usage = Some usage,
                     join_count =
                       (if int (length tbls) > 0 then int (length tbls) - 1 else 0),
                     report_raw_sql = None\<rparr>, p')))"

section \<open>core/index_advisor.py\<close>

text \<open>The loop of \<^verbatim>\<open>IndexAdvisor._map_aliases_to_tables\<close> (index_advisor.py 26-37).\<close>

fun advisor_scan :: "token list \<Rightarrow> alias_table \<Rightarrow> bool \<Rightarrow> py_error + alias_table" where
  "advisor_scan [] mapping from_or_join_seen = Inr mapping"
| "advisor_scan (tok # rest) mapping from_or_join_seen =
     (case (if from_or_join_seen then collect_tables mapping tok else Inr mapping) of
        Inl e \<Rightarrow> Inl e
      | Inr mapping' \<Rightarrow>
          advisor_scan rest mapping'
            (if is_keyword tok \<and> normalized tok \<in> set [''FROM'', ''JOIN'', ''LEFT JOIN'']
             then True
             else if is_keyword tok then False
             else from_or_join_seen))"

text \<open>
  \<^verbatim>\<open>IndexAdvisor._map_aliases_to_tables\<close>:
  \<^verbatim>\<open>sqlparse.parse(self.report.get("raw_sql", ""))[0]\<close>, then the scan.
\<close>

definition map_aliases_to_tables ::
  "(string \<Rightarrow> parsed_statement list) \<Rightarrow> analysis_report \<Rightarrow> py_error + alias_table" where
  "map_aliases_to_tables sqlparse_parse report =
     (case sqlparse_parse (case report_raw_sql report of None \<Rightarrow> [] | Some sql \<Rightarrow> sql) of
        [] \<Rightarrow> Inl IndexError
      | st # _ \<Rightarrow> advisor_scan (tokens st) [] False)"

record index_advisor =
  advisor_report :: analysis_report
  advisor_column_usage :: usage_map
  alias_to_table_map :: alias_table

text \<open>
  \<^verbatim>\<open>IndexAdvisor.__init__\<close>; \<^verbatim>\<open>self.report.get("column_usage", {})\<close> of a report without
  the key is the empty usage map.
\<close>

definition IndexAdvisor ::
  "(string \<Rightarrow> parsed_statement list) \<Rightarrow> analysis_report \<Rightarrow> py_error + index_advisor" where
  "IndexAdvisor sqlparse_parse report =
     (case map_aliases_to_tables sqlparse_parse report of
        Inl e \<Rightarrow> Inl e
      | Inr mapping \<Rightarrow>
          Inr \<lparr>advisor_report = report,
               advisor_column_usage =
                 (case column_usage report of
                    None \<Rightarrow> \<lparr>where_filters = [], join_keys = [], order_by = [], group_by = []\<rparr>
                  | Some u \<Rightarrow> u),
               alias_to_table_map = mapping\<rparr>)"

text \<open>\<^verbatim>\<open>self.column_usage.get(usage_type, [])\<close>.\<close>

definition usage_get :: "usage_map \<Rightarrow> string \<Rightarrow> column_ref list" where
  "usage_get u k =
     (if k = ''where_filters'' then where_filters u
      else if k = ''join_keys'' then join_keys u
      else if k = ''order_by'' then order_by u
      else if k = ''group_by'' then group_by u
      else [])"

text \<open>
  \<^verbatim>\<open>table = self.alias_to_table_map.get(alias)\<close> followed by \<^verbatim>\<open>if table:\<close>: the table the
  alias resolves to, if the map has the alias with a non-empty real name.
\<close>

definition resolve :: "alias_table \<Rightarrow> string \<Rightarrow> string option" where
  "resolve m a =
     (case map_of m (Some a) of
        Some (Some t) \<Rightarrow> (if t = [] then None else Some t)
      | _ \<Rightarrow> None)"

text \<open>\<^verbatim>\<open>IndexAdvisor._generate_index_name\<close>: \<^verbatim>\<open>f"idx_{table}_{'_'.join(columns)}"\<close>.\<close>

definition generate_index_name :: "string \<Rightarrow> string option list \<Rightarrow> py_error + string" where
  "generate_index_name table columns =
     (case py_join_opt ''_'' columns of
        Inl e \<Rightarrow> Inl e
      | Inr joined \<Rightarrow> Inr (''idx_'' @ table @ ''_'' @ joined))"

text \<open>
  A recommendation; \<^verbatim>\<open>ml_predicted_impact\<close> is the key that \<^verbatim>\<open>analyze_query\<close> adds when a
  classifier is loaded.
\<close>

record recommendation =
  statement :: string
  reason :: string
  impact :: string
  ml_predicted_impact :: "string option"

text \<open>The grouping loop (index_advisor.py 55-59): \<^verbatim>\<open>table_to_cols\<close>, in insertion order.\<close>

fun group_filters ::
  "alias_table \<Rightarrow> column_ref list \<Rightarrow> (string, column_ref list) dict \<Rightarrow>
     (string, column_ref list) dict" where
  "group_filters m [] table_to_cols = table_to_cols"
| "group_filters m ((alias, column) # rest) table_to_cols =
     (case resolve m alias of
        None \<Rightarrow> group_filters m rest table_to_cols
      | Some table \<Rightarrow>
          group_filters m rest
            (AList.update table
               ((case map_of table_to_cols table of None \<Rightarrow> [] | Some cols \<Rightarrow> cols)
                @ [(alias, column)])
               table_to_cols))"

text \<open>The two recommendation dictionaries the advisor builds.\<close>

definition composite_recommendation :: "string \<Rightarrow> string \<Rightarrow> string \<Rightarrow> recommendation" where
  "composite_recommendation index_name table joined =
     \<lparr>statement = ''CREATE INDEX '' @ index_name @ '' ON '' @ table @ '' ('' @ joined @ '');'',
      reason = ''Columns '' @ joined @ '' are used together in the WHERE clause.'',
      impact = ''High'',
      ml_predicted_impact = None\<rparr>"

definition single_recommendation ::
  "string \<Rightarrow> string \<Rightarrow> string \<Rightarrow> string \<Rightarrow> string \<Rightarrow> recommendation" where
  "single_recommendation index_name table column usage_type reason_text =
     \<lparr>statement = ''CREATE INDEX '' @ index_name @ '' ON '' @ table @ '' ('' @ column @ '');'',
      reason = ''Column '' @ [CHR 0x27] @ column @ [CHR 0x27] @ '' is used for ''
               @ reason_text @ ''.'',
      impact = (if usage_type \<noteq> ''order_by'' then ''High'' else ''Medium''),
      ml_predicted_impact = None\<rparr>"

text \<open>
  The loop over \<^verbatim>\<open>table_to_cols.items()\<close> (index_advisor.py 61-72): the recommendations
  and the claimed pairs so far are passed along.
\<close>

fun composite_loop ::
  "(string, column_ref list) dict \<Rightarrow> recommendation list \<Rightarrow> column_ref list \<Rightarrow>
     py_error + recommendation list \<times> column_ref list" where
  "composite_loop [] recommendations recommended_composite_cols =
     Inr (recommendations, recommended_composite_cols)"
| "composite_loop ((table, cols) # rest) recommendations recommended_composite_cols =
     (if 1 < length cols
      then
        (case py_sorted (map snd cols) of
           Inl e \<Rightarrow> Inl e
         | Inr sorted_cols \<Rightarrow>
        (case generate_index_name table sorted_cols of
           Inl e \<Rightarrow> Inl e
         | Inr index_name \<Rightarrow>
        (case py_join_opt '', '' sorted_cols of
           Inl e \<Rightarrow> Inl e
         | Inr joined \<Rightarrow>
             composite_loop rest
               (recommendations @ [composite_recommendation index_name table joined])
               (recommended_composite_cols @ cols))))
      else composite_loop rest recommendations recommended_composite_cols)"

text \<open>
  The inner loop of the single-column part (index_advisor.py 80-93) for one usage type.
  Once \<^verbatim>\<open>_generate_index_name\<close> has returned, the column is a string.
\<close>

fun single_loop ::
  "alias_table \<Rightarrow> column_ref list \<Rightarrow> string \<Rightarrow> string \<Rightarrow> column_ref list \<Rightarrow>
     recommendation list \<Rightarrow> py_error + recommendation list" where
  "single_loop m claimed usage_type reason_text [] recommendations = Inr recommendations"
| "single_loop m claimed usage_type reason_text ((alias, column) # rest) recommendations =
     (if (alias, column) \<in> set claimed
      then single_loop m claimed usage_type reason_text rest recommendations
      else
        (case resolve m alias of
           None \<Rightarrow> single_loop m claimed usage_type reason_text rest recommendations
         | Some table \<Rightarrow>
             (case generate_index_name table [column] of
                Inl e \<Rightarrow> Inl e
              | Inr index_name \<Rightarrow>
                  single_loop m claimed usage_type reason_text rest
                    (recommendations @
                     [single_recommendation index_name table (the column)
                        usage_type reason_text]))))"

definition usage_types :: "(string \<times> string) list" where
  "usage_types =
     [(''where_filters'', ''filtering in the WHERE clause''),
      (''join_keys'', ''a JOIN condition''),
      (''order_by'', ''sorting in the ORDER BY clause'')]"

text \<open>The outer loop over \<^verbatim>\<open>usage_types.items()\<close>.\<close>

fun singles_loop ::
  "alias_table \<Rightarrow> usage_map \<Rightarrow> column_ref list \<Rightarrow> (string \<times> string) list \<Rightarrow>
     recommendation list \<Rightarrow> py_error + recommendation list" where
  "singles_loop m u claimed [] recommendations = Inr recommendations"
| "singles_loop m u claimed ((usage_type, reason_text) # rest) recommendations =
     (case single_loop m claimed usage_type reason_text (usage_get u usage_type) recommendations of
        Inl e \<Rightarrow> Inl e
      | Inr recommendations' \<Rightarrow> singles_loop m u claimed rest recommendations')"

text \<open>\<^verbatim>\<open>IndexAdvisor.generate_recommendations\<close>.\<close>

definition generate_recommendations :: "index_advisor \<Rightarrow> py_error + recommendation list" where
  "generate_recommendations adv =
     (let m = alias_to_table_map adv;
          u = advisor_column_usage adv;
          filters = usage_get u ''where_filters''
      in case (if 1 < length filters
               then composite_loop (group_filters m filters []) [] []
               else Inr ([], [])) of
           Inl e \<Rightarrow> Inl e
         | Inr (recommendations, recommended_composite_cols) \<Rightarrow>
             singles_loop m u recommended_composite_cols usage_types recommendations)"

section \<open>core/optimizer.py\<close>

record query_optimizer =
  optimizer_parsed :: parsed_statement
  optimizer_raw_sql :: string

definition QueryOptimizer :: "sql_parser \<Rightarrow> query_optimizer" where
  "QueryOptimizer p = \<lparr>optimizer_parsed = parsed p, optimizer_raw_sql = raw_sql p\<rparr>"

record suggestion =
  suggestion_type :: string
  suggested_sql :: string
  suggestion_reason :: string

definition union_all_reason :: string where
  "union_all_reason =
     ''If duplicate removal is not needed, `UNION ALL` is faster as it avoids a sort/hash operation.''"

definition union_all_suggestion :: "string \<Rightarrow> suggestion" where
  "union_all_suggestion sql =
     \<lparr>suggestion_type = ''REPLACE_UNION_WITH_UNION_ALL'',
      suggested_sql = replace_first sql ''UNION'' ''UNION ALL'',
      suggestion_reason = union_all_reason\<rparr>"

text \<open>
  The loop of \<^verbatim>\<open>_check_union_all_suggestion\<close> over \<^verbatim>\<open>enumerate(self.parsed.tokens)\<close>; it
  stops at the first UNION keyword that no ALL keyword follows.
\<close>

fun union_loop :: "token list \<Rightarrow> nat \<Rightarrow> token list \<Rightarrow> string \<Rightarrow> suggestion list" where
  "union_loop all_tokens i [] sql = []"
| "union_loop all_tokens i (tok # rest) sql =
     (if match_tok tok Keyword ''UNION''
      then
        (case token_next all_tokens i of
           None \<Rightarrow> [union_all_suggestion sql]
         | Some (j, next_token) \<Rightarrow>
             (if match_tok next_token Keyword ''ALL''
              then union_loop all_tokens (Suc i) rest sql
              else [union_all_suggestion sql]))
      else union_loop all_tokens (Suc i) rest sql)"

definition check_union_all_suggestion :: "query_optimizer \<Rightarrow> suggestion list" where
  "check_union_all_suggestion opt =
     union_loop (tokens (optimizer_parsed opt)) 0 (tokens (optimizer_parsed opt))
       (optimizer_raw_sql opt)"

definition subquery_to_join_suggestion :: suggestion where
  "subquery_to_join_suggestion =
     \<lparr>suggestion_type = ''REWRITE_SUBQUERY_TO_JOIN'',
      suggested_sql =
        ''-- Example Rewrite:'' @ [CHR 0x0A] @ ''SELECT t1.*'' @ [CHR 0x0A] @ ''FROM table1 t1''
        @ [CHR 0x0A] @ ''JOIN table2 t2 ON t1.column = t2.column;'',
      suggestion_reason =
        ''Found a subquery in an `IN` clause. Rewriting this as a `JOIN` is often significantly more performant as it allows the database planner to create a better execution strategy.''\<rparr>"

text \<open>
  What \<^verbatim>\<open>_check_subquery_to_join\<close> tests on one Comparison: a child normalised
  \<^verbatim>\<open>IN\<close>, and a SELECT among the children of its first Parenthesis child.
\<close>

definition in_subquery :: "token \<Rightarrow> bool" where
  "in_subquery tok =
     (let is_in_clause = list_ex (\<lambda>t. normalized t = ''IN'') (tokens_of tok);
          subquery_token = find (\<lambda>t. isinstance t Parenthesis) (tokens_of tok)
      in case subquery_token of
           None \<Rightarrow> False
         | Some sq \<Rightarrow> is_in_clause \<and> list_ex (\<lambda>t. match_tok t DML ''SELECT'') (tokens_of sq))"

text \<open>The loop over \<^verbatim>\<open>where_clause.tokens\<close>; it returns at the first match.\<close>

fun subquery_loop :: "token list \<Rightarrow> suggestion list" where
  "subquery_loop [] = []"
| "subquery_loop (tok # rest) =
     (if isinstance tok Comparison \<and> in_subquery tok
      then [subquery_to_join_suggestion]
      else subquery_loop rest)"

definition check_subquery_to_join :: "query_optimizer \<Rightarrow> suggestion list" where
  "check_subquery_to_join opt =
     (case find (\<lambda>t. isinstance t Where) (tokens (optimizer_parsed opt)) of
        None \<Rightarrow> []
      | Some where_clause \<Rightarrow> subquery_loop (tokens_of where_clause))"

definition suggest_rewrites :: "query_optimizer \<Rightarrow> suggestion list" where
  "suggest_rewrites opt = check_union_all_suggestion opt @ check_subquery_to_join opt"

section \<open>api/main.py\<close>

record analysis_response =
  analysis :: analysis_report
  index_recommendations :: "recommendation list"
  rewrite_suggestions :: "suggestion list"

text \<open>
  \<^verbatim>\<open>analyze_query\<close>. \<open>classifier\<close> is the module's \<^verbatim>\<open>model\<close>: \<open>None\<close> when no file was
  loaded, else the label \<^verbatim>\<open>model.predict(...)[0]\<close> as a function of the two features
  \<^verbatim>\<open>join_count\<close> and \<^verbatim>\<open>where_clause_count\<close>.
\<close>

definition analyze_query ::
  "(string option list \<Rightarrow> string option list) \<Rightarrow> (column_ref list \<Rightarrow> column_ref list) \<Rightarrow>
   (string \<Rightarrow> parsed_statement list) \<Rightarrow> (string \<Rightarrow> bool) \<Rightarrow> (int \<times> int \<Rightarrow> string) option \<Rightarrow>
   string \<Rightarrow> py_error + analysis_response" where
  "analyze_query h_names h_refs sqlparse_parse re_search classifier sql_query =
     (case SQLParser sqlparse_parse sql_query of
        Inl e \<Rightarrow> Inl e
      | Inr parser \<Rightarrow>
     (case run_analysis h_names h_refs re_search parser of
        (Inl e, parser') \<Rightarrow> Inl e
      | (Inr report0, parser') \<Rightarrow>
     (let analysis_report = report0\<lparr>report_raw_sql := Some sql_query\<rparr> in
      case IndexAdvisor sqlparse_parse analysis_report of
        Inl e \<Rightarrow> Inl e
      | Inr advisor \<Rightarrow>
     (case generate_recommendations advisor of
        Inl e \<Rightarrow> Inl e
      | Inr recs \<Rightarrow>
     (let rewrites = suggest_rewrites (QueryOptimizer parser');
          features =
            (join_count analysis_report,
             int (length (case column_usage analysis_report of
                            None \<Rightarrow> [] | Some u \<Rightarrow> usage_get u ''where_filters'')));
          recs' =
            (case classifier of
               None \<Rightarrow> recs
             | Some predict \<Rightarrow>
                 map (\<lambda>r. r\<lparr>ml_predicted_impact := Some (predict features)\<rparr>) recs)
      in Inr \<lparr>analysis = analysis_report,
              index_recommendations = recs',
              rewrite_suggestions = rewrites\<rparr>)))))"

section \<open>The claims' own notions\<close>

text \<open>
  What \<^verbatim>\<open>_check_subquery_to_join\<close> looks for among the immediate children of the WHERE
  group: a Comparison node with a child normalised \<^verbatim>\<open>IN\<close> whose first Parenthesis child
  holds a SELECT keyword.
\<close>

definition has_select :: "token \<Rightarrow> bool" where
  "has_select g = list_ex (\<lambda>t. match_tok t DML ''SELECT'') (tokens_of g)"

definition in_with_first_subquery :: "token \<Rightarrow> bool" where
  "in_with_first_subquery c =
     (isinstance c Comparison \<and> list_ex (\<lambda>t. normalized t = ''IN'') (tokens_of c)
      \<and> (case find (\<lambda>g. isinstance g Parenthesis) (tokens_of c) of
            None \<Rightarrow> False
          | Some g \<Rightarrow> has_select g))"

text \<open>The first top-level Where group of a statement.\<close>

definition where_clause_of :: "parsed_statement \<Rightarrow> token option" where
  "where_clause_of st = find (\<lambda>t. isinstance t Where) (tokens st)"

definition where_child_has_first_subquery :: "parsed_statement \<Rightarrow> bool" where
  "where_child_has_first_subquery st =
     (case where_clause_of st of
        None \<Rightarrow> False
      | Some w \<Rightarrow> list_ex in_with_first_subquery (tokens_of w))"


text \<open>The suggestions of one type among the engine's output.\<close>

definition suggestions_of_type :: "string \<Rightarrow> suggestion list \<Rightarrow> suggestion list" where
  "suggestions_of_type ty xs = filter (\<lambda>s. suggestion_type s = ty) xs"

text \<open>
  A top-level UNION keyword whose next non-whitespace sibling is not the keyword ALL
  (or is missing).
\<close>

definition union_without_all :: "token list \<Rightarrow> bool" where
  "union_without_all ts =
     list_ex (\<lambda>i. match_tok (ts ! i) Keyword ''UNION'' \<and>
                  (case token_next ts i of
                     None \<Rightarrow> True
                   | Some (j, nt) \<Rightarrow> \<not> match_tok nt Keyword ''ALL''))
       [0..<length ts]"

text \<open>
  The pairs of a list whose alias resolves to table \<open>t\<close>, and the pairs whose alias is
  a key of the alias table at all.
\<close>

definition refs_of_table :: "alias_table \<Rightarrow> string \<Rightarrow> column_ref list \<Rightarrow> column_ref list" where
  "refs_of_table m t refs = filter (\<lambda>(a, c). resolve m a = Some t) refs"

definition known_alias :: "alias_table \<Rightarrow> column_ref \<Rightarrow> bool" where
  "known_alias m r = (map_of m (Some (fst r)) \<noteq> None)"

definition drop_unknown :: "alias_table \<Rightarrow> usage_map \<Rightarrow> usage_map" where
  "drop_unknown m u =
     \<lparr>where_filters = filter (known_alias m) (where_filters u),
      join_keys = filter (known_alias m) (join_keys u),
      order_by = filter (known_alias m) (order_by u),
      group_by = filter (known_alias m) (group_by u)\<rparr>"

text \<open>
  A usage map in which every pair of the three lists the advisor reads that resolves
  to a table has a string as its column (the column of an Identifier without a name
  is \<^verbatim>\<open>None\<close>).
\<close>

definition resolved_typed :: "alias_table \<Rightarrow> usage_map \<Rightarrow> bool" where
  "resolved_typed m u =
     list_all (\<lambda>(a, c). resolve m a = None \<or> c \<noteq> None)
       (where_filters u @ join_keys u @ order_by u)"

text \<open>
  A tree in which every Identifier has a name (\<^verbatim>\<open>get_name()\<close> is not \<^verbatim>\<open>None\<close>), and the
  usage sets whose columns are all strings.
\<close>

fun named :: "token \<Rightarrow> bool" where
  "named (Token t v n) = True"
| "named (TokenList c i n ts) = ((c \<noteq> Identifier \<or> get_name i \<noteq> None) \<and> list_all named ts)"

definition typed_sets :: "usage_sets \<Rightarrow> bool" where
  "typed_sets usage =
     list_all (\<lambda>(a, c). c \<noteq> None)
       (where_filters_set usage @ join_keys_set usage @ order_by_set usage @ group_by_set usage)"

text \<open>
  The advisor's output, read off the usage map. \<open>composite_groups\<close> are the tables with
  more than one resolved where-filter, in order of first appearance, each with its
  pairs; \<open>composite_of\<close> is the recommendation for one of them. \<open>single_refs\<close> are the
  pairs of one usage list that get a single-column recommendation, \<open>single_of\<close> is
  that recommendation, and \<open>single_part\<close> lists them for the three usage types.
\<close>

definition composite_groups ::
  "alias_table \<Rightarrow> column_ref list \<Rightarrow> (string \<times> column_ref list) list" where
  "composite_groups m refs = filter (\<lambda>(t, cols). 1 < length cols) (group_filters m refs [])"

definition claimed_refs :: "alias_table \<Rightarrow> column_ref list \<Rightarrow> column_ref list" where
  "claimed_refs m refs = concat (map snd (composite_groups m refs))"

definition composite_of :: "string \<times> column_ref list \<Rightarrow> recommendation" where
  "composite_of g =
     (let cols = sort (map (\<lambda>(a, c). the c) (snd g))
      in composite_recommendation (''idx_'' @ fst g @ ''_'' @ py_join ''_'' cols) (fst g)
           (py_join '', '' cols))"

definition single_refs :: "alias_table \<Rightarrow> column_ref list \<Rightarrow> column_ref list \<Rightarrow> column_ref list" where
  "single_refs m claimed refs =
     filter (\<lambda>(a, c). (a, c) \<notin> set claimed \<and> resolve m a \<noteq> None) refs"

definition single_of :: "alias_table \<Rightarrow> string \<Rightarrow> string \<Rightarrow> column_ref \<Rightarrow> recommendation" where
  "single_of m usage_type reason_text r =
     (let t = the (resolve m (fst r)); c = the (snd r)
      in single_recommendation (''idx_'' @ t @ ''_'' @ c) t c usage_type reason_text)"

definition single_part :: "alias_table \<Rightarrow> usage_map \<Rightarrow> column_ref list \<Rightarrow> recommendation list" where
  "single_part m u claimed =
     concat (map (\<lambda>(usage_type, reason_text).
                    map (single_of m usage_type reason_text)
                      (single_refs m claimed (usage_get u usage_type)))
               usage_types)"

section \<open>Example statements\<close>

text \<open>Builders for the token trees sqlparse returns for common fragments.\<close>

definition ws :: token where
  "ws = Token Whitespace '' '' '' ''"

definition kw :: "string \<Rightarrow> token" where
  "kw s = Token Keyword s s"

definition dml :: "string \<Rightarrow> token" where
  "dml s = Token DML s s"

definition punct :: "string \<Rightarrow> token" where
  "punct s = Token Punctuation s s"

definition leaf :: "string \<Rightarrow> token" where
  "leaf s = Token Other_ttype s s"

definition no_names :: name_info where
  "no_names = \<lparr>real_name = None, alias_name = None, parent_name = None\<rparr>"

definition grp :: "group_class \<Rightarrow> name_info \<Rightarrow> token list \<Rightarrow> token" where
  "grp c i ts = TokenList c i (concat (map tok_str ts)) ts"

text \<open>The Identifier groups for \<^verbatim>\<open>c\<close>, \<^verbatim>\<open>p.c\<close> and \<^verbatim>\<open>t a\<close>.\<close>

definition bare :: "string \<Rightarrow> token" where
  "bare c = grp Identifier \<lparr>real_name = Some c, alias_name = None, parent_name = None\<rparr> [leaf c]"

definition dotted :: "string \<Rightarrow> string \<Rightarrow> token" where
  "dotted p c =
     grp Identifier \<lparr>real_name = Some c, alias_name = None, parent_name = Some p\<rparr>
       [leaf p, punct ''.'', leaf c]"

definition aliased :: "string \<Rightarrow> string \<Rightarrow> token" where
  "aliased t a =
     grp Identifier \<lparr>real_name = Some t, alias_name = Some a, parent_name = None\<rparr>
       [leaf t, ws, bare a]"

text \<open>
  \<^verbatim>\<open>SELECT u.name FROM users u JOIN orders o ON u.id=o.user_id WHERE u.a=1 AND u.b=2;\<close>
\<close>

definition composite_sql :: string where
  "composite_sql =
     ''SELECT u.name FROM users u JOIN orders o ON u.id=o.user_id WHERE u.a=1 AND u.b=2;''"

definition composite_stmt :: parsed_statement where
  "composite_stmt =
     \<lparr>tokens =
        [dml ''SELECT'', ws, dotted ''u'' ''name'', ws,
         kw ''FROM'', ws, aliased ''users'' ''u'', ws,
         kw ''JOIN'', ws, aliased ''orders'' ''o'', ws,
         kw ''ON'', ws,
         grp Comparison no_names [dotted ''u'' ''id'', leaf ''='', dotted ''o'' ''user_id''],
         ws,
         grp Where no_names
           [kw ''WHERE'', ws,
            grp Comparison no_names [dotted ''u'' ''a'', leaf ''='', leaf ''1''], ws,
            kw ''AND'', ws,
            grp Comparison no_names [dotted ''u'' ''b'', leaf ''='', leaf ''2''],
            punct '';'']],
      get_type = ''SELECT''\<rparr>"

text \<open>\<^verbatim>\<open>DELETE FROM orders;\<close>\<close>

definition delete_stmt :: parsed_statement where
  "delete_stmt =
     \<lparr>tokens = [dml ''DELETE'', ws, kw ''FROM'', ws, bare ''orders'', punct '';''],
      get_type = ''DELETE''\<rparr>"

text \<open>\<^verbatim>\<open>SELECT u.name FROM users u INNER JOIN orders o ON u.id=o.user_id\<close>\<close>

definition inner_join_sql :: string where
  "inner_join_sql = ''SELECT u.name FROM users u INNER JOIN orders o ON u.id=o.user_id''"

definition inner_join_stmt :: parsed_statement where
  "inner_join_stmt =
     \<lparr>tokens =
        [dml ''SELECT'', ws, dotted ''u'' ''name'', ws,
         kw ''FROM'', ws, aliased ''users'' ''u'', ws,
         kw ''INNER JOIN'', ws, aliased ''orders'' ''o'', ws,
         kw ''ON'', ws,
         grp Comparison no_names [dotted ''u'' ''id'', leaf ''='', dotted ''o'' ''user_id'']],
      get_type = ''SELECT''\<rparr>"

text \<open>The report of that statement, with the raw text that \<^verbatim>\<open>analyze_query\<close> adds.\<close>

definition inner_join_report :: analysis_report where
  "inner_join_report =
     \<lparr>query_type = ''SELECT'', tables = [Some ''orders'', Some ''users''],
      anti_patterns = [],
      column_usage =
        Some \<lparr>where_filters = [],
              join_keys = [(''o'', Some ''user_id''), (''u'', Some ''id'')],
              order_by = [], group_by = []\<rparr>,
      join_count = 1, report_raw_sql = Some inner_join_sql\<rparr>"

text \<open>
  \<^verbatim>\<open>SELECT * FROM t ORDER BY 1 DESC, name\<close>: sqlparse groups \<^verbatim>\<open>1 DESC\<close> into an Identifier
  that has no name.
\<close>

definition order_by_stmt :: parsed_statement where
  "order_by_stmt =
     \<lparr>tokens =
        [dml ''SELECT'', ws, leaf ''*'', ws, kw ''FROM'', ws, bare ''t'', ws,
         kw ''ORDER BY'', ws,
         grp IdentifierList no_names
           [grp Identifier no_names [leaf ''1'', ws, Token Keyword_other ''DESC'' ''DESC''],
            punct '','', ws, bare ''name'']],
      get_type = ''SELECT''\<rparr>"

text \<open>\<^verbatim>\<open>SELECT * FROM t ORDER BY\<close>: an ORDER BY keyword with no following token.\<close>

definition dangling_order_by_stmt :: parsed_statement where
  "dangling_order_by_stmt =
     \<lparr>tokens =
        [dml ''SELECT'', ws, leaf ''*'', ws, kw ''FROM'', ws, bare ''t'', ws, kw ''ORDER BY''],
      get_type = ''SELECT''\<rparr>"

text \<open>\<^verbatim>\<open>SELECT a,b FROM t1 UNION SELECT a,b FROM t2;\<close>\<close>

definition union_sql :: string where
  "union_sql = ''SELECT a,b FROM t1 UNION SELECT a,b FROM t2;''"

definition union_stmt :: parsed_statement where
  "union_stmt =
     \<lparr>tokens =
        [dml ''SELECT'', ws,
         grp IdentifierList no_names [bare ''a'', punct '','', bare ''b''], ws,
         kw ''FROM'', ws, bare ''t1'', ws, kw ''UNION'', ws,
         dml ''SELECT'', ws,
         grp IdentifierList no_names [bare ''a'', punct '','', bare ''b''], ws,
         kw ''FROM'', ws, bare ''t2'', punct '';''],
      get_type = ''SELECT''\<rparr>"



text \<open>A parser and an optimizer over a given tree, and a library stub that returns it.\<close>

definition parser_of :: "string \<Rightarrow> parsed_statement \<Rightarrow> sql_parser" where
  "parser_of sql st = \<lparr>raw_sql = sql, parsed = st, tables_and_aliases = None\<rparr>"

definition parse_as :: "parsed_statement \<Rightarrow> string \<Rightarrow> parsed_statement list" where
  "parse_as st sql = (if sql = [] then [] else [st])"

text \<open>
  The report and the advisor of the first example, and two usage maps with aliases
  that no FROM or JOIN introduces.
\<close>

definition composite_usage :: usage_map where
  "composite_usage =
     \<lparr>where_filters = [(''u'', Some ''a''), (''u'', Some ''b'')],
      join_keys = [(''o'', Some ''user_id''), (''u'', Some ''id'')],
      order_by = [], group_by = []\<rparr>"

definition composite_report :: analysis_report where
  "composite_report =
     \<lparr>query_type = ''SELECT'', tables = [Some ''orders'', Some ''users''],
      anti_patterns = [], column_usage = Some composite_usage,
      join_count = 1, report_raw_sql = Some composite_sql\<rparr>"

definition composite_aliases :: alias_table where
  "composite_aliases = [(Some ''u'', Some ''users''), (Some ''o'', Some ''orders'')]"

definition composite_advisor :: index_advisor where
  "composite_advisor =
     \<lparr>advisor_report = composite_report, advisor_column_usage = composite_usage,
      alias_to_table_map = composite_aliases\<rparr>"

definition stray_usage :: usage_map where
  "stray_usage =
     \<lparr>where_filters = [(''u'', Some ''a''), (''x'', Some ''b'')],
      join_keys = [(''y'', Some ''c'')],
      order_by = [(''unknown'', None)], group_by = []\<rparr>"

definition stray_advisor :: index_advisor where
  "stray_advisor = composite_advisor\<lparr>advisor_column_usage := stray_usage\<rparr>"

definition unknown_usage :: usage_map where
  "unknown_usage =
     \<lparr>where_filters = [(''x'', Some ''a''), (''x'', Some ''b'')],
      join_keys = [(''y'', Some ''c'')],
      order_by = [(''unknown'', None)], group_by = []\<rparr>"

definition unknown_advisor :: index_advisor where
  "unknown_advisor = composite_advisor\<lparr>advisor_column_usage := unknown_usage\<rparr>"





section \<open>Set order and sorting\<close>

lemma sort_cong_mset: "mset xs = mset ys \<Longrightarrow> sort xs = sort (ys :: 'a :: linorder list)"
  by (rule properties_for_sort) simp_all

lemma mset_list_of_set:
  assumes "set_order h"
  shows "mset (list_of_set h xs) = mset (remdups xs)"
  using assms by (simp add: set_order_def list_of_set_def)

lemma length_list_of_set:
  assumes "set_order h"
  shows "length (list_of_set h xs) = card (set xs)"
proof -
  have "size (mset (list_of_set h xs)) = size (mset (remdups xs))"
    using mset_list_of_set[OF assms] by simp
  then show ?thesis by (simp add: length_remdups_card_conv)
qed

lemma set_list_of_set:
  assumes "set_order h"
  shows "set (list_of_set h xs) = set xs"
proof -
  have "set_mset (mset (list_of_set h xs)) = set_mset (mset (remdups xs))"
    using mset_list_of_set[OF assms] by simp
  then show ?thesis by simp
qed

lemma set_order_id: "set_order (\<lambda>xs. xs)"
  by (simp add: set_order_def)

lemma set_order_rev: "set_order rev"
  by (simp add: set_order_def)

lemma py_sorted_length: "py_sorted xs = Inr ys \<Longrightarrow> length ys = length xs"
  by (auto simp: py_sorted_def split: if_splits)

section \<open>The join count\<close>

text \<open>
  Claim C2. Whenever \<^verbatim>\<open>run_analysis\<close> returns a report, its \<^verbatim>\<open>join_count\<close> is
  \<open>max 0 (n - 1)\<close>, where \<open>n\<close> is the number of distinct table names among the values
  of the alias table the parser extracted, which is also the length of the report's
  table list. This holds for every order in which the set of names is listed before it
  is sorted.
\<close>

theorem join_count_law:
  assumes "set_order h_names"
    and "run_analysis h_names h_refs re_search p = (Inr report, p')"
  shows "\<exists>t. fst (get_tables_and_aliases p) = Inr t
           \<and> length (tables report) = card (set (map snd t))
           \<and> join_count report = max 0 (int (card (set (map snd t))) - 1)"
proof -
  obtain r p1 where g: "get_tables_and_aliases p = (r, p1)"
    by (cases "get_tables_and_aliases p")
  from assms(2) g obtain t where r: "r = Inr t"
    by (cases r) (auto simp: run_analysis_def extract_tables_def)
  from assms(2) g r obtain tbls where
    s: "py_sorted (list_of_set h_names (map snd t)) = Inr tbls"
    and l: "tables report = tbls"
    and j: "join_count report = (if int (length tbls) > 0 then int (length tbls) - 1 else 0)"
    by (cases "py_sorted (list_of_set h_names (map snd t))")
       (auto simp: run_analysis_def extract_tables_def split: sum.splits)
  have "length tbls = card (set (map snd t))"
    using py_sorted_length[OF s] length_list_of_set[OF assms(1)] by simp
  with j l g r show ?thesis by auto
qed

theorem join_count_law_witness:
  "set_order (\<lambda>xs :: string option list. xs)
   \<and> (\<exists>report p'.
         run_analysis (\<lambda>xs. xs) (\<lambda>xs. xs) (\<lambda>s. False) (parser_of composite_sql composite_stmt)
           = (Inr report, p')
         \<and> join_count report = 1
         \<and> (\<exists>t. fst (get_tables_and_aliases (parser_of composite_sql composite_stmt)) = Inr t
                \<and> length (tables report) = card (set (map snd t))
                \<and> join_count report = max 0 (int (card (set (map snd t))) - 1)))"
proof -
  obtain r p' where run:
    "run_analysis (\<lambda>xs. xs) (\<lambda>xs. xs) (\<lambda>s. False) (parser_of composite_sql composite_stmt)
       = (r, p')"
    by (cases "run_analysis (\<lambda>xs. xs) (\<lambda>xs. xs) (\<lambda>s. False)
                 (parser_of composite_sql composite_stmt)")
  have ok: "case fst (run_analysis (\<lambda>xs. xs) (\<lambda>xs. xs) (\<lambda>s. False)
                        (parser_of composite_sql composite_stmt)) of
              Inl e \<Rightarrow> False | Inr report \<Rightarrow> join_count report = 1"
    by code_simp
  from ok run obtain report where r: "r = Inr report" and j: "join_count report = 1"
    by (cases r) auto
  from join_count_law[OF set_order_id, of "\<lambda>xs. xs" "\<lambda>s. False"
      "parser_of composite_sql composite_stmt" report p'] run r j
  show ?thesis using set_order_id by blast
qed

section \<open>The MISSING_WHERE_CLAUSE finding\<close>

lemma find_Where_text:
  assumes "\<forall>w \<in> set ts. isinstance w Where \<longrightarrow> tok_str w \<noteq> []"
    and "find (\<lambda>t. isinstance t Where) ts = Some w"
  shows "tok_str w \<noteq> []"
  using assms by (induction ts) (auto split: if_splits)

text \<open>
  Claim C7. The findings of \<^verbatim>\<open>detect_anti_patterns\<close> contain a MISSING_WHERE_CLAUSE
  finding if and only if the statement kind is UPDATE or DELETE and
  \<^verbatim>\<open>extract_where_clause\<close> returns \<^verbatim>\<open>None\<close>. The hypothesis is the library's guarantee
  that a Where group has text (it starts with the WHERE keyword).
\<close>

theorem missing_where_clause_iff:
  assumes "\<forall>w \<in> set (tokens (parsed p)). isinstance w Where \<longrightarrow> tok_str w \<noteq> []"
  shows "(\<exists>f \<in> set (detect_anti_patterns re_search p). finding_type f = ''MISSING_WHERE_CLAUSE'')
         \<longleftrightarrow> (get_query_type p \<in> {''UPDATE'', ''DELETE''} \<and> extract_where_clause p = None)"
proof -
  have t: "truthy (extract_where_clause p) \<longleftrightarrow> extract_where_clause p \<noteq> None"
    using find_Where_text[OF assms]
    by (auto simp: truthy_def extract_where_clause_def split: option.splits)
  show ?thesis
    by (auto simp: detect_anti_patterns_def Let_def t)
qed

theorem missing_where_clause_iff_witness:
  "list_all (\<lambda>w. \<not> isinstance w Where \<or> tok_str w \<noteq> []) (tokens delete_stmt)
   \<and> list_ex (\<lambda>f. finding_type f = ''MISSING_WHERE_CLAUSE'')
        (detect_anti_patterns (\<lambda>s. False) (parser_of ''DELETE FROM orders;'' delete_stmt))
   \<and> get_query_type (parser_of ''DELETE FROM orders;'' delete_stmt) = ''DELETE''
   \<and> extract_where_clause (parser_of ''DELETE FROM orders;'' delete_stmt) = None"
proof -
  have h: "list_all (\<lambda>w. \<not> isinstance w Where \<or> tok_str w \<noteq> []) (tokens delete_stmt)"
    by code_simp
  then have pre: "\<forall>w \<in> set (tokens (parsed (parser_of ''DELETE FROM orders;'' delete_stmt))).
                    isinstance w Where \<longrightarrow> tok_str w \<noteq> []"
    by (auto simp: list_all_iff parser_of_def)
  have k: "get_query_type (parser_of ''DELETE FROM orders;'' delete_stmt) = ''DELETE''"
    by code_simp
  have n: "extract_where_clause (parser_of ''DELETE FROM orders;'' delete_stmt) = None"
    by code_simp
  from missing_where_clause_iff[OF pre, of "\<lambda>s. False"] k n
  have "\<exists>f \<in> set (detect_anti_patterns (\<lambda>s. False)
                     (parser_of ''DELETE FROM orders;'' delete_stmt)).
          finding_type f = ''MISSING_WHERE_CLAUSE''"
    by simp
  then show ?thesis using h k n by (simp add: list_ex_iff)
qed

text \<open>
  The findings of the report are those of \<^verbatim>\<open>detect_anti_patterns\<close> on the parser that
  \<^verbatim>\<open>run_analysis\<close> was given: filling the parser's cache changes none of them.
\<close>

lemma get_tables_and_aliases_frame:
  "get_tables_and_aliases p = (r, p') \<Longrightarrow> parsed p' = parsed p \<and> raw_sql p' = raw_sql p"
  by (auto simp: get_tables_and_aliases_def split: option.splits sum.splits)

lemma detect_anti_patterns_frame:
  assumes "parsed p' = parsed p"
  shows "detect_anti_patterns re_search p' = detect_anti_patterns re_search p"
  unfolding detect_anti_patterns_def get_query_type_def extract_where_clause_def assms ..


lemma run_analysis_anti_patterns:
  assumes "run_analysis h_names h_refs re_search p = (Inr report, p')"
  shows "anti_patterns report = detect_anti_patterns re_search p"
proof -
  obtain r p1 where g: "get_tables_and_aliases p = (r, p1)"
    by (cases "get_tables_and_aliases p")
  then have f: "parsed p1 = parsed p"
    by (simp add: get_tables_and_aliases_frame)
  from assms g have "anti_patterns report = detect_anti_patterns re_search p1"
    by (auto simp: run_analysis_def extract_tables_def split: sum.splits)
  then show ?thesis
    by (simp only: detect_anti_patterns_frame[OF f])
qed

section \<open>The index advisor needs the raw statement text\<close>

text \<open>
  Claim C10. On a report without the \<^verbatim>\<open>raw_sql\<close> key, constructing the index advisor
  fails with an IndexError: it parses the empty string, for which the library returns
  no statement (the hypothesis), and takes element 0 of the result.
\<close>

theorem advisor_requires_raw_sql:
  assumes "sqlparse_parse [] = []" and "report_raw_sql report = None"
  shows "IndexAdvisor sqlparse_parse report = Inl IndexError"
  using assms by (simp add: IndexAdvisor_def map_aliases_to_tables_def)

theorem advisor_requires_raw_sql_witness:
  "parse_as composite_stmt [] = []
   \<and> report_raw_sql (composite_report\<lparr>report_raw_sql := None\<rparr>) = None
   \<and> IndexAdvisor (parse_as composite_stmt) (composite_report\<lparr>report_raw_sql := None\<rparr>)
       = Inl IndexError"
  using advisor_requires_raw_sql[of "parse_as composite_stmt"
      "composite_report\<lparr>report_raw_sql := None\<rparr>"]
  by (simp add: parse_as_def)

section \<open>The next non-whitespace sibling\<close>


lemma first_of_filter: "(case filter P xs of [] \<Rightarrow> None | x # _ \<Rightarrow> Some x) = find P xs"
  by (induction xs) auto

lemma token_next_find:
  "token_next ts idx = find (\<lambda>(j, t). \<not> is_whitespace t) (drop (Suc idx) (enumerate 0 ts))"
  unfolding token_next_def by (rule first_of_filter)

lemma token_next_Some_iff:
  "token_next ts idx = Some (j, t) \<longleftrightarrow>
     idx < j \<and> j < length ts \<and> t = ts ! j \<and> \<not> is_whitespace t
     \<and> (\<forall>k. idx < k \<and> k < j \<longrightarrow> is_whitespace (ts ! k))"
proof
  assume "token_next ts idx = Some (j, t)"
  then obtain i where i: "i < length (drop (Suc idx) (enumerate 0 ts))"
    and p: "\<not> is_whitespace (snd (drop (Suc idx) (enumerate 0 ts) ! i))"
    and e: "(j, t) = drop (Suc idx) (enumerate 0 ts) ! i"
    and f: "\<forall>k<i. is_whitespace (snd (drop (Suc idx) (enumerate 0 ts) ! k))"
    unfolding token_next_find find_Some_iff by (auto simp: case_prod_beta)
  from i have il: "Suc idx + i < length ts" by simp
  then have n: "drop (Suc idx) (enumerate 0 ts) ! i = (Suc idx + i, ts ! (Suc idx + i))"
    by (simp add: nth_enumerate_eq)
  from e n have j: "j = Suc idx + i" and t: "t = ts ! (Suc idx + i)" by simp_all
  have "is_whitespace (ts ! k)" if "idx < k" "k < j" for k
  proof -
    from that j have k: "k - Suc idx < i" by simp
    from that j il have "drop (Suc idx) (enumerate 0 ts) ! (k - Suc idx) = (k, ts ! k)"
      by (simp add: nth_enumerate_eq)
    with f k show ?thesis by (metis snd_conv)
  qed
  with il j t p n show "idx < j \<and> j < length ts \<and> t = ts ! j \<and> \<not> is_whitespace t
     \<and> (\<forall>k. idx < k \<and> k < j \<longrightarrow> is_whitespace (ts ! k))"
    by simp
next
  assume a: "idx < j \<and> j < length ts \<and> t = ts ! j \<and> \<not> is_whitespace t
     \<and> (\<forall>k. idx < k \<and> k < j \<longrightarrow> is_whitespace (ts ! k))"
  define i where "i = j - Suc idx"
  from a have j: "j = Suc idx + i" by (simp add: i_def)
  from a j have il: "i < length (drop (Suc idx) (enumerate 0 ts))" by auto
  from a j have n: "drop (Suc idx) (enumerate 0 ts) ! i = (j, t)"
    by (simp add: nth_enumerate_eq)
  have "is_whitespace (snd (drop (Suc idx) (enumerate 0 ts) ! k))" if "k < i" for k
  proof -
    from that a j have "drop (Suc idx) (enumerate 0 ts) ! k = (Suc idx + k, ts ! (Suc idx + k))"
      by (simp add: nth_enumerate_eq)
    with that a j show ?thesis by simp
  qed
  with il n a show "token_next ts idx = Some (j, t)"
    unfolding token_next_find find_Some_iff
    by (intro exI[of _ i]) (auto simp: case_prod_beta)
qed

lemma token_next_None_iff:
  "token_next ts idx = None \<longleftrightarrow> (\<forall>k. idx < k \<and> k < length ts \<longrightarrow> is_whitespace (ts ! k))"
proof -
  have "token_next ts idx = None \<longleftrightarrow> (\<forall>j t. token_next ts idx \<noteq> Some (j, t))"
    by (cases "token_next ts idx") auto
  also have "\<dots> \<longleftrightarrow> (\<forall>k. idx < k \<and> k < length ts \<longrightarrow> is_whitespace (ts ! k))"
  proof
    assume n: "\<forall>j t. token_next ts idx \<noteq> Some (j, t)"
    show "\<forall>k. idx < k \<and> k < length ts \<longrightarrow> is_whitespace (ts ! k)"
    proof (rule ccontr)
      assume "\<not> (\<forall>k. idx < k \<and> k < length ts \<longrightarrow> is_whitespace (ts ! k))"
      then have ex: "\<exists>k. idx < k \<and> k < length ts \<and> \<not> is_whitespace (ts ! k)" by blast
      define j where "j = (LEAST k. idx < k \<and> k < length ts \<and> \<not> is_whitespace (ts ! k))"
      from ex have pj: "idx < j \<and> j < length ts \<and> \<not> is_whitespace (ts ! j)"
        unfolding j_def by (rule LeastI_ex)
      have "is_whitespace (ts ! k)" if "idx < k" "k < j" for k
      proof (rule ccontr)
        assume "\<not> is_whitespace (ts ! k)"
        with that pj have "idx < k \<and> k < length ts \<and> \<not> is_whitespace (ts ! k)" by simp
        then have "j \<le> k" unfolding j_def by (rule Least_le)
        with that show False by simp
      qed
      with pj have "token_next ts idx = Some (j, ts ! j)"
        by (simp add: token_next_Some_iff)
      with n show False by blast
    qed
  next
    assume "\<forall>k. idx < k \<and> k < length ts \<longrightarrow> is_whitespace (ts ! k)"
    then show "\<forall>j t. token_next ts idx \<noteq> Some (j, t)"
      by (auto simp: token_next_Some_iff)
  qed
  finally show ?thesis .
qed

section \<open>The rewrite suggestion engine\<close>

lemma replace_first_absent: "\<not> sublist old s \<Longrightarrow> replace_first s old new = s"
proof (induction s)
  case Nil
  then show ?case by simp
next
  case (Cons c s)
  from Cons.prems have np: "\<not> prefix old (c # s)"
    by (simp add: sublist_Cons_right)
  from Cons.prems have "\<not> sublist old s"
    by (simp add: sublist_Cons_right)
  with Cons.IH np show ?case by simp
qed

lemma replace_first_leftmost:
  assumes "old \<noteq> []"
    and "\<forall>k<length pre. \<not> prefix old (drop k (pre @ old @ post))"
  shows "replace_first (pre @ old @ post) old new = pre @ new @ post"
  using assms(2)
proof (induction pre)
  case Nil
  from assms(1) obtain c cs where o: "old = c # cs" by (cases old) auto
  then show ?case by simp
next
  case (Cons c pre)
  from Cons.prems have np: "\<not> prefix old (c # pre @ old @ post)"
    by (metis append_Cons drop0 length_greater_0_conv list.distinct(1))
  have "\<forall>k<length pre. \<not> prefix old (drop k (pre @ old @ post))"
  proof (intro allI impI)
    fix k assume "k < length pre"
    then have "Suc k < length (c # pre)" by simp
    with Cons.prems have "\<not> prefix old (drop (Suc k) ((c # pre) @ old @ post))" by blast
    then show "\<not> prefix old (drop k (pre @ old @ post))" by simp
  qed
  with Cons.IH np show ?case by simp
qed

lemma union_loop_char:
  assumes "drop i ts = rest"
  shows "union_loop ts i rest sql =
           (if list_ex (\<lambda>k. match_tok (ts ! k) Keyword ''UNION'' \<and>
                          (case token_next ts k of
                             None \<Rightarrow> True
                           | Some (j, nt) \<Rightarrow> \<not> match_tok nt Keyword ''ALL''))
                 [i..<length ts]
            then [union_all_suggestion sql] else [])"
  using assms
proof (induction rest arbitrary: i)
  case Nil
  then have "length ts \<le> i" by simp
  then show ?case by simp
next
  case (Cons tok rest)
  from Cons.prems have lt: "i < length ts"
    by (metis drop_eq_Nil list.distinct(1) not_le)
  from Cons.prems lt have tok: "ts ! i = tok"
    by (metis nth_via_drop)
  from Cons.prems have rest: "drop (Suc i) ts = rest"
    by (metis drop_Suc list.sel(3) tl_drop)
  have upt: "[i..<length ts] = i # [Suc i..<length ts]"
    using lt by (simp add: upt_conv_Cons)
  show ?case
    using Cons.IH[OF rest] tok
    by (simp add: upt split: option.splits)
qed

lemma check_union_all_suggestion_char:
  "check_union_all_suggestion opt =
     (if union_without_all (tokens (optimizer_parsed opt))
      then [union_all_suggestion (optimizer_raw_sql opt)] else [])"
  unfolding check_union_all_suggestion_def union_without_all_def
  by (rule union_loop_char) simp

lemma union_without_all_iff:
  "union_without_all ts \<longleftrightarrow>
     (\<exists>i<length ts. match_tok (ts ! i) Keyword ''UNION'' \<and>
        \<not> (\<exists>j nt. token_next ts i = Some (j, nt) \<and> match_tok nt Keyword ''ALL''))"
  by (auto simp: union_without_all_def list_ex_iff split: option.splits)

lemma subquery_loop_char:
  "subquery_loop ts =
     (if list_ex in_with_first_subquery ts then [subquery_to_join_suggestion] else [])"
proof (induction ts)
  case Nil
  show ?case by simp
next
  case (Cons tok ts)
  have "(isinstance tok Comparison \<and> in_subquery tok) = in_with_first_subquery tok"
    by (auto simp: in_subquery_def in_with_first_subquery_def has_select_def Let_def
             split: option.splits)
  with Cons show ?case by simp
qed

lemma check_subquery_to_join_char:
  "check_subquery_to_join opt =
     (if where_child_has_first_subquery (optimizer_parsed opt)
      then [subquery_to_join_suggestion] else [])"
  by (simp add: check_subquery_to_join_def where_child_has_first_subquery_def
        where_clause_of_def subquery_loop_char split: option.splits)

lemma suggestions_of_type_union [simp]:
  "suggestions_of_type ''REPLACE_UNION_WITH_UNION_ALL'' [union_all_suggestion sql]
     = [union_all_suggestion sql]"
  "suggestions_of_type ''REWRITE_SUBQUERY_TO_JOIN'' [union_all_suggestion sql] = []"
  by (simp_all add: suggestions_of_type_def union_all_suggestion_def)

lemma suggestions_of_type_subquery [simp]:
  "suggestions_of_type ''REWRITE_SUBQUERY_TO_JOIN'' [subquery_to_join_suggestion]
     = [subquery_to_join_suggestion]"
  "suggestions_of_type ''REPLACE_UNION_WITH_UNION_ALL'' [subquery_to_join_suggestion] = []"
  by (simp_all add: suggestions_of_type_def subquery_to_join_suggestion_def)

lemma suggestions_of_type_append [simp]:
  "suggestions_of_type ty (xs @ ys) = suggestions_of_type ty xs @ suggestions_of_type ty ys"
  "suggestions_of_type ty [] = []"
  by (simp_all add: suggestions_of_type_def)

text \<open>
  Claim C4. Among the engine's suggestions, those of type REPLACE_UNION_WITH_UNION_ALL
  are exactly one, whose \<^verbatim>\<open>suggested_sql\<close> is the raw text with the leftmost \<^verbatim>\<open>UNION\<close>
  replaced by \<^verbatim>\<open>UNION ALL\<close>, when some top-level UNION keyword is not followed (whitespace
  skipped) by the keyword ALL, and none otherwise.
\<close>

theorem union_rule:
  "suggestions_of_type ''REPLACE_UNION_WITH_UNION_ALL'' (suggest_rewrites opt) =
     (if \<exists>i<length (tokens (optimizer_parsed opt)).
           match_tok (tokens (optimizer_parsed opt) ! i) Keyword ''UNION'' \<and>
           \<not> (\<exists>j nt. token_next (tokens (optimizer_parsed opt)) i = Some (j, nt)
                      \<and> match_tok nt Keyword ''ALL'')
      then [\<lparr>suggestion_type = ''REPLACE_UNION_WITH_UNION_ALL'',
             suggested_sql = replace_first (optimizer_raw_sql opt) ''UNION'' ''UNION ALL'',
             suggestion_reason = union_all_reason\<rparr>]
      else [])"
proof -
  have u: "union_all_suggestion (optimizer_raw_sql opt) =
             \<lparr>suggestion_type = ''REPLACE_UNION_WITH_UNION_ALL'',
              suggested_sql = replace_first (optimizer_raw_sql opt) ''UNION'' ''UNION ALL'',
              suggestion_reason = union_all_reason\<rparr>"
    by (simp add: union_all_suggestion_def)
  show ?thesis
    unfolding union_without_all_iff[symmetric] u[symmetric]
    by (simp add: suggest_rewrites_def check_union_all_suggestion_char
          check_subquery_to_join_char)
qed

theorem union_rule_witness:
  "union_without_all (tokens union_stmt)
   \<and> map suggested_sql
       (suggestions_of_type ''REPLACE_UNION_WITH_UNION_ALL''
          (suggest_rewrites (QueryOptimizer (parser_of union_sql union_stmt))))
     = [''SELECT a,b FROM t1 UNION ALL SELECT a,b FROM t2;'']"
proof -
  have a: "union_without_all (tokens union_stmt)" by code_simp
  have t: "tokens (optimizer_parsed (QueryOptimizer (parser_of union_sql union_stmt)))
             = tokens union_stmt"
    by (simp add: QueryOptimizer_def parser_of_def)
  have r: "replace_first (optimizer_raw_sql (QueryOptimizer (parser_of union_sql union_stmt)))
             ''UNION'' ''UNION ALL'' = ''SELECT a,b FROM t1 UNION ALL SELECT a,b FROM t2;''"
    by code_simp
  from a have c: "\<exists>i<length (tokens union_stmt).
           match_tok (tokens union_stmt ! i) Keyword ''UNION'' \<and>
           \<not> (\<exists>j nt. token_next (tokens union_stmt) i = Some (j, nt)
                      \<and> match_tok nt Keyword ''ALL'')"
    by (simp only: union_without_all_iff)
  show ?thesis
    using a c union_rule[of "QueryOptimizer (parser_of union_sql union_stmt)"]
    unfolding t r by simp
qed

lemma in_with_first_subquery_needs_IN:
  "in_with_first_subquery c \<Longrightarrow>
     isinstance c Comparison \<and> (\<exists>t \<in> set (tokens_of c). normalized t = ''IN'')"
  by (auto simp: in_with_first_subquery_def list_ex_iff)

text \<open>
  The engine suggests the rewrite only when an immediate child of the WHERE group is a
  Comparison node that has a token normalised \<^verbatim>\<open>IN\<close> among its own children.
\<close>

lemma subquery_rule_needs_comparison:
  assumes "check_subquery_to_join opt \<noteq> []"
  shows "\<exists>w c. where_clause_of (optimizer_parsed opt) = Some w \<and> c \<in> set (tokens_of w)
           \<and> isinstance c Comparison \<and> (\<exists>t \<in> set (tokens_of c). normalized t = ''IN'')"
proof -
  from assms have "where_child_has_first_subquery (optimizer_parsed opt)"
    by (simp add: check_subquery_to_join_char split: if_splits)
  then obtain w where w: "where_clause_of (optimizer_parsed opt) = Some w"
    and l: "list_ex in_with_first_subquery (tokens_of w)"
    by (auto simp: where_child_has_first_subquery_def split: option.splits)
  from l obtain c where "c \<in> set (tokens_of w)" and "in_with_first_subquery c"
    by (auto simp: list_ex_iff)
  with w in_with_first_subquery_needs_IN show ?thesis by blast
qed


section \<open>The two alias scans\<close>

text \<open>
  Claim C3 fails on the code. For
  \<^verbatim>\<open>SELECT u.name FROM users u INNER JOIN orders o ON u.id=o.user_id\<close> the parser's scan
  maps both aliases, and the advisor's scan, whose keyword list lacks INNER JOIN and
  RIGHT JOIN, stops expecting a table at the INNER JOIN keyword and maps \<^verbatim>\<open>u\<close> only.
\<close>

theorem alias_scans_differ:
  "fst (get_tables_and_aliases (parser_of inner_join_sql inner_join_stmt))
     = Inr [(Some ''u'', Some ''users''), (Some ''o'', Some ''orders'')]
   \<and> map_aliases_to_tables (parse_as inner_join_stmt) inner_join_report
     = Inr [(Some ''u'', Some ''users'')]"
  by code_simp

section \<open>The clause-usage classifier\<close>

lemma none_clash_iff:
  "none_clash xs \<longleftrightarrow> (\<exists>a. (a, None) \<in> set xs \<and> (\<exists>c. (a, Some c) \<in> set xs))"
  by (fastforce simp: none_clash_def list_ex_iff)

lemma none_clash_cong: "set xs = set ys \<Longrightarrow> none_clash xs = none_clash ys"
  by (simp add: none_clash_iff)

text \<open>
  Claim C9 fails on the code. For \<^verbatim>\<open>SELECT * FROM t ORDER BY 1 DESC, name\<close> the
  ORDER BY bucket receives \<^verbatim>\<open>('unknown', None)\<close> and \<^verbatim>\<open>('unknown', 'name')\<close>, and sorting
  the bucket raises TypeError, in whichever order the set lists its elements.
\<close>

theorem classifier_fails_on_unnamed_identifier:
  "analyze_column_usage (\<lambda>xs. xs) order_by_stmt = Inl TypeError
   \<and> analyze_column_usage rev order_by_stmt = Inl TypeError"
  by code_simp

subsection \<open>Trees whose identifiers all have names\<close>

lemma none_clash_typed: "list_all (\<lambda>(a, c). c \<noteq> None) xs \<Longrightarrow> \<not> none_clash xs"
  by (auto simp: none_clash_iff list_all_iff)

lemma py_sorted_refs_typed:
  assumes "set_order h" and "list_all (\<lambda>(a, c). c \<noteq> None) xs"
  shows "py_sorted_refs (list_of_set h xs) = Inr (sort (list_of_set h xs))"
proof -
  from assms have "list_all (\<lambda>(a, c). c \<noteq> None) (list_of_set h xs)"
    by (simp add: list_all_iff set_list_of_set)
  then show ?thesis
    by (simp add: py_sorted_refs_def none_clash_typed)
qed

lemma recursive_find_identifiers_named:
  "named tok \<Longrightarrow> list_all (\<lambda>(a, c). c \<noteq> None) (recursive_find_identifiers tok)"
proof (induction tok)
  case (Token t v n)
  show ?case by simp
next
  case (TokenList c i n ts)
  from TokenList.prems have sub: "\<forall>s \<in> set ts. named s"
    by (simp add: list_all_iff)
  with TokenList.IH have "\<forall>s \<in> set ts. list_all (\<lambda>(a, c). c \<noteq> None) (recursive_find_identifiers s)"
    by blast
  with TokenList.prems show ?case
    by (auto simp: list_all_iff)
qed

lemma find_identifiers_next_named:
  assumes "\<forall>tok \<in> set ts. named tok"
  shows "list_all (\<lambda>(a, c). c \<noteq> None) (find_identifiers_next (token_next ts idx))"
proof (cases "token_next ts idx")
  case None
  then show ?thesis by (simp add: find_identifiers_next_def)
next
  case (Some jt)
  obtain j t where jt: "jt = (j, t)" by (cases jt)
  from Some jt have "t \<in> set ts"
    by (auto simp: token_next_Some_iff)
  with assms have "named t" by blast
  then have "list_all (\<lambda>(a, c). c \<noteq> None) (recursive_find_identifiers t)"
    by (rule recursive_find_identifiers_named)
  with Some jt show ?thesis
    by (simp add: find_identifiers_next_def)
qed

lemma typed_sets_add:
  assumes "typed_sets usage" and "list_all (\<lambda>(a, c). c \<noteq> None) xs"
  shows "typed_sets (usage\<lparr>join_keys_set := join_keys_set usage @ xs\<rparr>)"
    and "typed_sets (usage\<lparr>where_filters_set := where_filters_set usage @ xs\<rparr>)"
    and "typed_sets (usage\<lparr>order_by_set := order_by_set usage @ xs\<rparr>)"
    and "typed_sets (usage\<lparr>group_by_set := group_by_set usage @ xs\<rparr>)"
  using assms by (simp_all add: typed_sets_def)

lemma usage_loop_named:
  assumes "\<forall>tok \<in> set all_tokens. named tok"
  shows "set rest \<subseteq> set all_tokens \<Longrightarrow> typed_sets usage
         \<Longrightarrow> typed_sets (usage_loop all_tokens idx rest usage is_after_on)"
proof (induction rest arbitrary: idx usage is_after_on)
  case Nil
  then show ?case by simp
next
  case (Cons tok rest)
  from Cons.prems assms have n: "named tok" by simp
  from Cons.prems have sub: "set rest \<subseteq> set all_tokens" by simp
  note r = recursive_find_identifiers_named[OF n]
  note f = find_identifiers_next_named[OF assms, of idx]
  show ?case
  proof (cases "is_keyword tok \<and> normalized tok = ''ON''")
    case True
    then have "usage_loop all_tokens idx (tok # rest) usage is_after_on
                 = usage_loop all_tokens (Suc idx) rest usage True"
      by simp
    with Cons.IH[OF sub Cons.prems(2)] show ?thesis by simp
  next
    case False
    define usage1 where "usage1 =
      (if is_after_on \<and> isinstance tok Comparison
       then usage\<lparr>join_keys_set := join_keys_set usage @ recursive_find_identifiers tok\<rparr>
       else usage)"
    define usage2 where "usage2 =
      (if isinstance tok Where
       then usage1\<lparr>where_filters_set := where_filters_set usage1 @ recursive_find_identifiers tok\<rparr>
       else usage1)"
    define usage3 where "usage3 =
      (if is_keyword tok
       then (if sublist ''ORDER BY'' (normalized tok)
             then usage2\<lparr>order_by_set := order_by_set usage2
                            @ find_identifiers_next (token_next all_tokens idx)\<rparr>
             else if sublist ''GROUP BY'' (normalized tok)
             then usage2\<lparr>group_by_set := group_by_set usage2
                            @ find_identifiers_next (token_next all_tokens idx)\<rparr>
             else usage2)
       else usage2)"
    have eq: "usage_loop all_tokens idx (tok # rest) usage is_after_on
                = usage_loop all_tokens (Suc idx) rest usage3
                    (if is_after_on \<and> isinstance tok Comparison then False else is_after_on)"
      using False unfolding usage1_def usage2_def usage3_def
      by (simp only: usage_loop.simps Let_def if_False)
    have t1: "typed_sets usage1"
      unfolding usage1_def using Cons.prems(2) r by (simp add: typed_sets_add)
    have t2: "typed_sets usage2"
      unfolding usage2_def using t1 r by (simp add: typed_sets_add)
    have t3: "typed_sets usage3"
      unfolding usage3_def using t2 f by (simp add: typed_sets_add)
    show ?thesis
      unfolding eq by (rule Cons.IH[OF sub t3])
  qed
qed

text \<open>
  On a statement whose identifiers all have names the classifier does return a usage
  map, and an ORDER BY keyword with nothing after it adds nothing and raises nothing.
\<close>

lemma classifier_total_on_named:
  assumes "set_order h" and "\<forall>tok \<in> set (tokens st). named tok"
  shows "\<exists>usage. analyze_column_usage h st = Inr usage"
proof -
  have "typed_sets (usage_loop (tokens st) 0 (tokens st)
                      \<lparr>where_filters_set = [], join_keys_set = [],
                       order_by_set = [], group_by_set = []\<rparr> False)"
    by (rule usage_loop_named[OF assms(2)]) (simp_all add: typed_sets_def)
  then show ?thesis
    unfolding analyze_column_usage_def Let_def
    by (simp add: typed_sets_def py_sorted_refs_typed[OF assms(1)])
qed

lemma classifier_dangling_order_by:
  "analyze_column_usage (\<lambda>xs. xs) dangling_order_by_stmt
     = Inr \<lparr>where_filters = [], join_keys = [], order_by = [], group_by = []\<rparr>"
  by code_simp

section \<open>Determinism\<close>

lemma py_sorted_order:
  assumes "set_order h" and "set_order h'"
  shows "py_sorted (list_of_set h xs) = py_sorted (list_of_set h' xs)"
proof -
  have m: "mset (list_of_set h xs) = mset (list_of_set h' xs)"
    using assms by (simp add: mset_list_of_set)
  have l: "length (list_of_set h xs) = length (list_of_set h' xs)"
    using assms by (simp add: length_list_of_set)
  have s: "set (list_of_set h xs) = set (list_of_set h' xs)"
    using assms by (simp add: set_list_of_set)
  show ?thesis
    unfolding py_sorted_def l s sort_cong_mset[OF m] ..
qed

lemma py_sorted_refs_order:
  assumes "set_order h" and "set_order h'"
  shows "py_sorted_refs (list_of_set h xs) = py_sorted_refs (list_of_set h' xs)"
proof -
  have m: "mset (list_of_set h xs) = mset (list_of_set h' xs)"
    using assms by (simp add: mset_list_of_set)
  have s: "set (list_of_set h xs) = set (list_of_set h' xs)"
    using assms by (simp add: set_list_of_set)
  show ?thesis
    unfolding py_sorted_refs_def none_clash_cong[OF s] sort_cong_mset[OF m] ..
qed

lemma extract_tables_order:
  assumes "set_order h" and "set_order h'"
  shows "extract_tables h p = extract_tables h' p"
  unfolding extract_tables_def py_sorted_order[OF assms] ..

lemma analyze_column_usage_order:
  assumes "set_order h" and "set_order h'"
  shows "analyze_column_usage h st = analyze_column_usage h' st"
  unfolding analyze_column_usage_def py_sorted_refs_order[OF assms] ..

lemma run_analysis_order:
  assumes "set_order h_names" and "set_order h_names'"
    and "set_order h_refs" and "set_order h_refs'"
  shows "run_analysis h_names h_refs re_search p = run_analysis h_names' h_refs' re_search p"
  unfolding run_analysis_def extract_tables_order[OF assms(1,2)]
    analyze_column_usage_order[OF assms(3,4)] ..

text \<open>
  Claim C8. Two runs of \<^verbatim>\<open>analyze_query\<close> on the same text (with the same library and
  the same classifier) return the same response, or fail with the same error,
  whatever the order in which each run's sets list their elements: the only
  run-dependent input of the pipeline does not reach the output.
\<close>

theorem analysis_deterministic:
  assumes "set_order h_names" and "set_order h_names'"
    and "set_order h_refs" and "set_order h_refs'"
  shows "analyze_query h_names h_refs sqlparse_parse re_search classifier sql
         = analyze_query h_names' h_refs' sqlparse_parse re_search classifier sql"
  unfolding analyze_query_def run_analysis_order[OF assms] ..

theorem analysis_deterministic_witness:
  "set_order (\<lambda>xs :: string option list. xs) \<and> set_order (rev :: string option list \<Rightarrow> _)
   \<and> set_order (\<lambda>xs :: column_ref list. xs) \<and> set_order (rev :: column_ref list \<Rightarrow> _)
   \<and> analyze_query (\<lambda>xs. xs) (\<lambda>xs. xs) (parse_as composite_stmt) (\<lambda>s. False) None composite_sql
      = analyze_query rev rev (parse_as composite_stmt) (\<lambda>s. False) None composite_sql"
  using analysis_deterministic[OF set_order_id set_order_rev set_order_id set_order_rev,
      of "parse_as composite_stmt" "\<lambda>s. False" None composite_sql]
  by (simp add: set_order_id set_order_rev)

section \<open>The index advisor\<close>

subsection \<open>Pairs whose alias is unknown\<close>

lemma unknown_not_resolved: "\<not> known_alias m (a, c) \<Longrightarrow> resolve m a = None"
  by (simp add: known_alias_def resolve_def)

lemma group_filters_known:
  "group_filters m (filter (known_alias m) refs) acc = group_filters m refs acc"
proof (induction refs arbitrary: acc)
  case Nil
  show ?case by simp
next
  case (Cons r refs)
  obtain a c where r: "r = (a, c)" by (cases r)
  show ?case
  proof (cases "known_alias m (a, c)")
    case True
    with Cons r show ?thesis by (simp split: option.splits)
  next
    case False
    with Cons r unknown_not_resolved[OF False] show ?thesis by simp
  qed
qed

lemma single_loop_known:
  "single_loop m claimed ut rt (filter (known_alias m) refs) recs
     = single_loop m claimed ut rt refs recs"
proof (induction refs arbitrary: recs)
  case Nil
  show ?case by simp
next
  case (Cons r refs)
  obtain a c where r: "r = (a, c)" by (cases r)
  show ?case
  proof (cases "known_alias m (a, c)")
    case True
    with Cons r show ?thesis by (simp split: option.splits sum.splits)
  next
    case False
    with Cons r unknown_not_resolved[OF False] show ?thesis by simp
  qed
qed

lemma usage_get_drop_unknown:
  "usage_get (drop_unknown m u) k = filter (known_alias m) (usage_get u k)"
  by (simp add: usage_get_def drop_unknown_def)

lemma singles_loop_known:
  "singles_loop m (drop_unknown m u) claimed uts recs = singles_loop m u claimed uts recs"
proof (induction uts arbitrary: recs)
  case Nil
  show ?case by simp
next
  case (Cons ut uts)
  obtain k rt where ut: "ut = (k, rt)" by (cases ut)
  show ?case
    unfolding ut singles_loop.simps usage_get_drop_unknown single_loop_known Cons.IH ..
qed

text \<open>The guard \<^verbatim>\<open>len(where_filters) > 1\<close> changes nothing: one pair makes no composite.\<close>

lemma composite_gate:
  "(if 1 < length refs then composite_loop (group_filters m refs []) [] [] else Inr ([], []))
     = composite_loop (group_filters m refs []) [] []"
proof (cases refs)
  case Nil
  then show ?thesis by simp
next
  case (Cons r rest)
  obtain a c where r: "r = (a, c)" by (cases r)
  show ?thesis
  proof (cases rest)
    case Nil
    with Cons r show ?thesis by (simp split: option.splits)
  next
    case (Cons r' rest')
    with \<open>refs = r # rest\<close> show ?thesis by simp
  qed
qed

lemma generate_recommendations_ungated:
  "generate_recommendations adv =
     (case composite_loop
             (group_filters (alias_to_table_map adv)
                (where_filters (advisor_column_usage adv)) []) [] [] of
        Inl e \<Rightarrow> Inl e
      | Inr (recommendations, claimed) \<Rightarrow>
          singles_loop (alias_to_table_map adv) (advisor_column_usage adv) claimed
            usage_types recommendations)"
  unfolding generate_recommendations_def Let_def composite_gate
  by (simp add: usage_get_def)

lemma single_loop_unknown:
  "list_all (\<lambda>r. \<not> known_alias m r) refs \<Longrightarrow> single_loop m claimed ut rt refs recs = Inr recs"
proof (induction refs)
  case Nil
  show ?case by simp
next
  case (Cons r refs)
  obtain a c where r: "r = (a, c)" by (cases r)
  from Cons.prems r have "resolve m a = None"
    by (auto intro: unknown_not_resolved)
  with Cons r show ?case by simp
qed

lemma group_filters_unknown:
  "list_all (\<lambda>r. \<not> known_alias m r) refs \<Longrightarrow> group_filters m refs acc = acc"
proof (induction refs)
  case Nil
  show ?case by simp
next
  case (Cons r refs)
  obtain a c where r: "r = (a, c)" by (cases r)
  from Cons.prems r have "resolve m a = None"
    by (auto intro: unknown_not_resolved)
  with Cons r show ?case by simp
qed

text \<open>
  Claim C6. Pairs whose alias is not a key of the advisor's alias table are dropped
  silently: the advisor returns what it returns on the usage map without them, the
  same recommendations or the same failure, so such a pair adds no recommendation and
  causes no error. When no pair of the three usage lists has a known alias, the result
  is the empty list.
\<close>

theorem unknown_alias_dropped:
  "generate_recommendations
     (adv\<lparr>advisor_column_usage :=
            drop_unknown (alias_to_table_map adv) (advisor_column_usage adv)\<rparr>)
     = generate_recommendations adv
   \<and> (list_all (\<lambda>r. \<not> known_alias (alias_to_table_map adv) r)
         (where_filters (advisor_column_usage adv) @ join_keys (advisor_column_usage adv)
          @ order_by (advisor_column_usage adv))
       \<longrightarrow> generate_recommendations adv = Inr [])"
proof
  have w: "where_filters (drop_unknown (alias_to_table_map adv) (advisor_column_usage adv))
             = filter (known_alias (alias_to_table_map adv))
                 (where_filters (advisor_column_usage adv))"
    by (simp add: drop_unknown_def)
  show "generate_recommendations
          (adv\<lparr>advisor_column_usage :=
                 drop_unknown (alias_to_table_map adv) (advisor_column_usage adv)\<rparr>)
          = generate_recommendations adv"
    unfolding generate_recommendations_ungated
    by (simp add: w group_filters_known singles_loop_known split: sum.splits prod.splits)
next
  show "list_all (\<lambda>r. \<not> known_alias (alias_to_table_map adv) r)
          (where_filters (advisor_column_usage adv) @ join_keys (advisor_column_usage adv)
           @ order_by (advisor_column_usage adv))
        \<longrightarrow> generate_recommendations adv = Inr []"
  proof
    assume a: "list_all (\<lambda>r. \<not> known_alias (alias_to_table_map adv) r)
                 (where_filters (advisor_column_usage adv)
                  @ join_keys (advisor_column_usage adv)
                  @ order_by (advisor_column_usage adv))"
    then have g: "group_filters (alias_to_table_map adv)
                    (where_filters (advisor_column_usage adv)) [] = []"
      by (simp add: group_filters_unknown)
    from a show "generate_recommendations adv = Inr []"
      unfolding generate_recommendations_ungated g
      by (simp add: usage_types_def usage_get_def single_loop_unknown)
  qed
qed

theorem unknown_alias_dropped_witness:
  "advisor_column_usage
     (stray_advisor\<lparr>advisor_column_usage :=
        drop_unknown (alias_to_table_map stray_advisor) (advisor_column_usage stray_advisor)\<rparr>)
     = \<lparr>where_filters = [(''u'', Some ''a'')], join_keys = [], order_by = [], group_by = []\<rparr>
   \<and> generate_recommendations
        (stray_advisor\<lparr>advisor_column_usage :=
           drop_unknown (alias_to_table_map stray_advisor)
             (advisor_column_usage stray_advisor)\<rparr>)
      = generate_recommendations stray_advisor
   \<and> map statement (projr (generate_recommendations stray_advisor))
      = [''CREATE INDEX idx_users_a ON users (a);'']
   \<and> list_all (\<lambda>r. \<not> known_alias (alias_to_table_map unknown_advisor) r)
        (where_filters (advisor_column_usage unknown_advisor)
         @ join_keys (advisor_column_usage unknown_advisor)
         @ order_by (advisor_column_usage unknown_advisor))
   \<and> generate_recommendations unknown_advisor = Inr []"
proof -
  have a: "advisor_column_usage
     (stray_advisor\<lparr>advisor_column_usage :=
        drop_unknown (alias_to_table_map stray_advisor) (advisor_column_usage stray_advisor)\<rparr>)
     = \<lparr>where_filters = [(''u'', Some ''a'')], join_keys = [], order_by = [], group_by = []\<rparr>"
    by code_simp
  have b: "map statement (projr (generate_recommendations stray_advisor))
      = [''CREATE INDEX idx_users_a ON users (a);'']"
    by code_simp
  have c: "list_all (\<lambda>r. \<not> known_alias (alias_to_table_map unknown_advisor) r)
        (where_filters (advisor_column_usage unknown_advisor)
         @ join_keys (advisor_column_usage unknown_advisor)
         @ order_by (advisor_column_usage unknown_advisor))"
    by code_simp
  from a b c unknown_alias_dropped[of stray_advisor] unknown_alias_dropped[of unknown_advisor]
  show ?thesis by blast
qed

subsection \<open>The grouping of the where-filters\<close>

lemma refs_of_table_Cons:
  "refs_of_table m t ((a, c) # refs) =
     (if resolve m a = Some t then (a, c) # refs_of_table m t refs else refs_of_table m t refs)"
  by (simp add: refs_of_table_def)

lemma group_filters_distinct:
  "distinct (map fst acc) \<Longrightarrow> distinct (map fst (group_filters m refs acc))"
proof (induction refs arbitrary: acc)
  case Nil
  then show ?case by simp
next
  case (Cons r refs)
  obtain a c where r: "r = (a, c)" by (cases r)
  show ?case
    unfolding r using Cons
    by (simp add: distinct_update split: option.splits)
qed

lemma group_filters_map_of:
  "map_of (group_filters m refs acc) t =
     (if refs_of_table m t refs = [] then map_of acc t
      else Some ((case map_of acc t of None \<Rightarrow> [] | Some cols \<Rightarrow> cols)
                 @ refs_of_table m t refs))"
proof (induction refs arbitrary: acc)
  case Nil
  show ?case by (simp add: refs_of_table_def)
next
  case (Cons r refs)
  obtain a c where r: "r = (a, c)" by (cases r)
  show ?case
  proof (cases "resolve m a")
    case None
    with Cons r show ?thesis by (simp add: refs_of_table_Cons)
  next
    case (Some t')
    with Cons r show ?thesis
      by (simp add: refs_of_table_Cons update_conv' split: option.splits)
  qed
qed

lemma group_filters_lookup:
  "map_of (group_filters m refs []) t =
     (if refs_of_table m t refs = [] then None else Some (refs_of_table m t refs))"
  by (simp add: group_filters_map_of)

lemma group_filters_member:
  assumes "(t, cols) \<in> set (group_filters m refs [])"
  shows "cols = refs_of_table m t refs"
proof -
  have "distinct (map fst (group_filters m refs []))"
    by (rule group_filters_distinct) simp
  with assms have "map_of (group_filters m refs []) t = Some cols"
    by simp
  then show ?thesis
    by (simp add: group_filters_lookup split: if_splits)
qed



subsection \<open>The two loops when every resolving pair has a string column\<close>

lemma sort_Some: "sort (map Some xs) = map Some (sort (xs :: string list))"
proof (rule properties_for_sort)
  show "mset (map Some (sort xs)) = mset (map Some xs)" by simp
  show "sorted (map Some (sort xs))"
    by (simp add: sorted_map)
qed

lemma typed_columns:
  assumes "list_all (\<lambda>(a, c). c \<noteq> None) cols"
  shows "map snd cols = map Some (map (\<lambda>(a, c). the c) cols)"
  using assms by (induction cols) auto

lemma py_join_opt_Some: "py_join_opt sep (map Some xs) = Inr (py_join sep xs)"
  by (auto simp: py_join_opt_def comp_def)

lemma py_sorted_Some: "py_sorted (map Some xs) = Inr (map Some (sort xs))"
  by (auto simp: py_sorted_def sort_Some)

lemma py_sorted_typed:
  assumes "list_all (\<lambda>(a, c). c \<noteq> None) cols"
  shows "py_sorted (map snd cols) = Inr (map Some (sort (map (\<lambda>(a, c). the c) cols)))"
  unfolding typed_columns[OF assms] by (rule py_sorted_Some)

lemma composite_loop_typed:
  assumes "list_all (\<lambda>(t, cols). list_all (\<lambda>(a, c). c \<noteq> None) cols) groups"
  shows "composite_loop groups recs claimed =
           Inr (recs @ map composite_of (filter (\<lambda>(t, cols). 1 < length cols) groups),
                claimed @ concat (map snd (filter (\<lambda>(t, cols). 1 < length cols) groups)))"
  using assms
proof (induction groups arbitrary: recs claimed)
  case Nil
  show ?case by simp
next
  case (Cons g groups)
  obtain t cols where g: "g = (t, cols)" by (cases g)
  from Cons.prems g have ty: "list_all (\<lambda>(a, c). c \<noteq> None) cols"
    and rest: "list_all (\<lambda>(t, cols). list_all (\<lambda>(a, c). c \<noteq> None) cols) groups"
    by simp_all
  show ?case
    unfolding g
    by (simp add: Cons.IH[OF rest] py_sorted_typed[OF ty] py_join_opt_Some
          generate_index_name_def composite_of_def Let_def)
qed

lemma single_loop_typed:
  assumes "list_all (\<lambda>(a, c). resolve m a = None \<or> c \<noteq> None) refs"
  shows "single_loop m claimed ut rt refs recs =
           Inr (recs @ map (single_of m ut rt) (single_refs m claimed refs))"
  using assms
proof (induction refs arbitrary: recs)
  case Nil
  show ?case by (simp add: single_refs_def)
next
  case (Cons r refs)
  obtain a c where r: "r = (a, c)" by (cases r)
  from Cons.prems have rest: "list_all (\<lambda>(a, c). resolve m a = None \<or> c \<noteq> None) refs"
    by simp
  note ih = Cons.IH[OF rest]
  show ?case
  proof (cases "(a, c) \<in> set claimed \<or> resolve m a = None")
    case True
    then show ?thesis
      unfolding r by (auto simp: ih single_refs_def)
  next
    case False
    then obtain t where t: "resolve m a = Some t" by auto
    with Cons.prems r obtain col where c: "c = Some col" by auto
    from False t show ?thesis
      unfolding r c
      by (simp add: ih single_refs_def single_of_def generate_index_name_def py_join_opt_def)
  qed
qed

lemma singles_loop_typed:
  assumes "\<forall>(k, rt) \<in> set uts.
             list_all (\<lambda>(a, c). resolve m a = None \<or> c \<noteq> None) (usage_get u k)"
  shows "singles_loop m u claimed uts recs =
           Inr (recs @ concat (map (\<lambda>(usage_type, reason_text).
                                      map (single_of m usage_type reason_text)
                                        (single_refs m claimed (usage_get u usage_type)))
                                 uts))"
  using assms
proof (induction uts arbitrary: recs)
  case Nil
  show ?case by simp
next
  case (Cons ut uts)
  obtain k rt where ut: "ut = (k, rt)" by (cases ut)
  from Cons.prems ut have here: "list_all (\<lambda>(a, c). resolve m a = None \<or> c \<noteq> None) (usage_get u k)"
    and rest: "\<forall>(k, rt) \<in> set uts.
                 list_all (\<lambda>(a, c). resolve m a = None \<or> c \<noteq> None) (usage_get u k)"
    by simp_all
  show ?case
    unfolding ut
    by (simp add: single_loop_typed[OF here] Cons.IH[OF rest])
qed

lemma resolved_typed_usage_types:
  assumes "resolved_typed m u"
  shows "\<forall>(k, rt) \<in> set usage_types.
           list_all (\<lambda>(a, c). resolve m a = None \<or> c \<noteq> None) (usage_get u k)"
  using assms by (simp add: resolved_typed_def usage_types_def usage_get_def)

lemma group_filters_typed:
  assumes "list_all (\<lambda>(a, c). resolve m a = None \<or> c \<noteq> None) refs"
  shows "list_all (\<lambda>(t, cols). list_all (\<lambda>(a, c). c \<noteq> None) cols) (group_filters m refs [])"
proof -
  have "list_all (\<lambda>(a, c). c \<noteq> None) cols" if "(t, cols) \<in> set (group_filters m refs [])"
    for t cols
  proof -
    from that have "cols = refs_of_table m t refs" by (rule group_filters_member)
    with assms show ?thesis by (auto simp: refs_of_table_def list_all_iff)
  qed
  then show ?thesis by (fastforce simp: list_all_iff)
qed

lemma generate_recommendations_typed:
  assumes "resolved_typed (alias_to_table_map adv) (advisor_column_usage adv)"
  shows "generate_recommendations adv =
           Inr (map composite_of
                  (composite_groups (alias_to_table_map adv)
                     (where_filters (advisor_column_usage adv)))
                @ single_part (alias_to_table_map adv) (advisor_column_usage adv)
                    (claimed_refs (alias_to_table_map adv)
                       (where_filters (advisor_column_usage adv))))"
proof -
  from assms have w: "list_all (\<lambda>(a, c). resolve (alias_to_table_map adv) a = None \<or> c \<noteq> None)
                        (where_filters (advisor_column_usage adv))"
    by (simp add: resolved_typed_def)
  show ?thesis
    unfolding generate_recommendations_ungated
    by (simp add: composite_loop_typed[OF group_filters_typed[OF w]]
          singles_loop_typed[OF resolved_typed_usage_types[OF assms]]
          composite_groups_def claimed_refs_def single_part_def)
qed

subsection \<open>When the advisor fails\<close>

lemma py_sorted_Inr: "py_sorted xs = Inr ys \<Longrightarrow> 1 < length xs \<Longrightarrow> None \<notin> set xs"
  by (auto simp: py_sorted_def split: if_splits)

lemma py_sorted_Inl: "py_sorted xs = Inl e \<Longrightarrow> e = TypeError"
  by (auto simp: py_sorted_def split: if_splits)

lemma py_join_opt_Inl: "py_join_opt sep xs = Inl e \<Longrightarrow> e = TypeError"
  by (auto simp: py_join_opt_def split: if_splits)

lemma generate_index_name_Inl: "generate_index_name t cols = Inl e \<Longrightarrow> e = TypeError"
  by (auto simp: generate_index_name_def split: sum.splits dest: py_join_opt_Inl)

lemma generate_index_name_Inr: "generate_index_name t [c] = Inr n \<Longrightarrow> c \<noteq> None"
  by (cases c) (auto simp: generate_index_name_def py_join_opt_def)

lemma composite_loop_Inl:
  "composite_loop groups recs claimed = Inl e \<Longrightarrow> e = TypeError"
proof (induction groups arbitrary: recs claimed)
  case Nil
  then show ?case by simp
next
  case (Cons g groups)
  obtain t cols where g: "g = (t, cols)" by (cases g)
  from Cons.prems show ?case
    unfolding g
    by (auto split: if_splits sum.splits
          dest: py_sorted_Inl generate_index_name_Inl py_join_opt_Inl Cons.IH)
qed

lemma composite_loop_Inr:
  "composite_loop groups recs claimed = Inr (recs', claimed') \<Longrightarrow>
     claimed' = claimed @ concat (map snd (filter (\<lambda>(t, cols). 1 < length cols) groups))
     \<and> list_all (\<lambda>(a, c). c \<noteq> None)
          (concat (map snd (filter (\<lambda>(t, cols). 1 < length cols) groups)))"
proof (induction groups arbitrary: recs claimed)
  case Nil
  then show ?case by simp
next
  case (Cons g groups)
  obtain t cols where g: "g = (t, cols)" by (cases g)
  show ?case
  proof (cases "1 < length cols")
    case False
    with Cons.prems g have "composite_loop groups recs claimed = Inr (recs', claimed')"
      by simp
    from Cons.IH[OF this] False g show ?thesis by simp
  next
    case True
    with Cons.prems g obtain sorted_cols recs1 where
      s: "py_sorted (map snd cols) = Inr sorted_cols"
      and r: "composite_loop groups recs1 (claimed @ cols) = Inr (recs', claimed')"
      by (auto split: sum.splits)
    from py_sorted_Inr[OF s] True have "None \<notin> set (map snd cols)" by simp
    then have ty: "list_all (\<lambda>(a, c). c \<noteq> None) cols"
      by (force simp: list_all_iff)
    from Cons.IH[OF r] True g ty show ?thesis by simp
  qed
qed

lemma single_loop_Inl:
  "single_loop m claimed ut rt refs recs = Inl e \<Longrightarrow> e = TypeError"
proof (induction refs arbitrary: recs)
  case Nil
  then show ?case by simp
next
  case (Cons r refs)
  obtain a c where r: "r = (a, c)" by (cases r)
  from Cons.prems show ?case
    unfolding r
    by (auto split: if_splits option.splits sum.splits
          dest: generate_index_name_Inl Cons.IH)
qed

lemma single_loop_Inr:
  "single_loop m claimed ut rt refs recs = Inr recs' \<Longrightarrow>
     list_all (\<lambda>(a, c). (a, c) \<in> set claimed \<or> resolve m a = None \<or> c \<noteq> None) refs"
proof (induction refs arbitrary: recs)
  case Nil
  show ?case by simp
next
  case (Cons r refs)
  obtain a c where r: "r = (a, c)" by (cases r)
  show ?case
  proof (cases "(a, c) \<in> set claimed \<or> resolve m a = None")
    case True
    with Cons.prems have "single_loop m claimed ut rt refs recs = Inr recs'"
      unfolding r by (auto split: if_splits)
    from Cons.IH[OF this] True r show ?thesis by auto
  next
    case False
    then obtain t where t: "resolve m a = Some t" by auto
    with False Cons.prems r obtain n recs1 where
      n: "generate_index_name t [c] = Inr n"
      and l: "single_loop m claimed ut rt refs recs1 = Inr recs'"
      by (auto split: sum.splits)
    from Cons.IH[OF l] generate_index_name_Inr[OF n] r show ?thesis by simp
  qed
qed

lemma singles_loop_Inl:
  "singles_loop m u claimed uts recs = Inl e \<Longrightarrow> e = TypeError"
proof (induction uts arbitrary: recs)
  case Nil
  then show ?case by simp
next
  case (Cons ut uts)
  obtain k rt where ut: "ut = (k, rt)" by (cases ut)
  from Cons.prems show ?case
    unfolding ut
    by (auto split: sum.splits dest: single_loop_Inl Cons.IH)
qed

lemma singles_loop_Inr:
  "singles_loop m u claimed uts recs = Inr recs' \<Longrightarrow>
     \<forall>(k, rt) \<in> set uts.
       list_all (\<lambda>(a, c). (a, c) \<in> set claimed \<or> resolve m a = None \<or> c \<noteq> None)
         (usage_get u k)"
proof (induction uts arbitrary: recs)
  case Nil
  show ?case by simp
next
  case (Cons ut uts)
  obtain k rt where ut: "ut = (k, rt)" by (cases ut)
  from Cons.prems ut obtain recs1 where
    h: "single_loop m claimed k rt (usage_get u k) recs = Inr recs1"
    and r: "singles_loop m u claimed uts recs1 = Inr recs'"
    by (auto split: sum.splits)
  from single_loop_Inr[OF h] Cons.IH[OF r] ut show ?case by simp
qed

lemma generate_recommendations_Inl:
  "generate_recommendations adv = Inl e \<Longrightarrow> e = TypeError"
  unfolding generate_recommendations_ungated
  by (auto split: sum.splits prod.splits dest: composite_loop_Inl singles_loop_Inl)

lemma generate_recommendations_Inr:
  assumes "generate_recommendations adv = Inr recs"
  shows "resolved_typed (alias_to_table_map adv) (advisor_column_usage adv)"
proof -
  define m where "m = alias_to_table_map adv"
  define u where "u = advisor_column_usage adv"
  from assms obtain recs1 claimed where
    c: "composite_loop (group_filters m (where_filters u) []) [] [] = Inr (recs1, claimed)"
    and s: "singles_loop m u claimed usage_types recs1 = Inr recs"
    unfolding generate_recommendations_ungated m_def u_def
    by (auto split: sum.splits prod.splits)
  from composite_loop_Inr[OF c] have cl: "list_all (\<lambda>(a, c). c \<noteq> None) claimed"
    by simp
  have "list_all (\<lambda>(a, c). resolve m a = None \<or> c \<noteq> None) (usage_get u k)"
    if "(k, rt) \<in> set usage_types" for k rt
  proof -
    from singles_loop_Inr[OF s] that
    have "list_all (\<lambda>(a, c). (a, c) \<in> set claimed \<or> resolve m a = None \<or> c \<noteq> None)
            (usage_get u k)"
      by blast
    with cl show ?thesis
      by (fastforce simp: list_all_iff)
  qed
  then have "list_all (\<lambda>(a, c). resolve m a = None \<or> c \<noteq> None) (usage_get u ''where_filters'')"
    and "list_all (\<lambda>(a, c). resolve m a = None \<or> c \<noteq> None) (usage_get u ''join_keys'')"
    and "list_all (\<lambda>(a, c). resolve m a = None \<or> c \<noteq> None) (usage_get u ''order_by'')"
    by (simp_all add: usage_types_def)
  then show ?thesis
    unfolding m_def[symmetric] u_def[symmetric]
    by (simp add: resolved_typed_def usage_get_def)
qed

text \<open>
  The advisor returns a list exactly when every resolving pair of the three usage
  lists has a string column; otherwise it raises TypeError.
\<close>

lemma advisor_returns_iff:
  "(\<exists>recs. generate_recommendations adv = Inr recs)
     \<longleftrightarrow> resolved_typed (alias_to_table_map adv) (advisor_column_usage adv)"
  using generate_recommendations_Inr generate_recommendations_typed by blast

lemma advisor_fails_otherwise:
  assumes "\<not> resolved_typed (alias_to_table_map adv) (advisor_column_usage adv)"
  shows "generate_recommendations adv = Inl TypeError"
proof (cases "generate_recommendations adv")
  case (Inl e)
  then show ?thesis using generate_recommendations_Inl by blast
next
  case (Inr recs)
  with assms generate_recommendations_Inr show ?thesis by blast
qed

subsection \<open>Composite recommendations\<close>




end
